theory Spec2Isabelle
  imports Main
begin

section \<open>The GSU importer: row matching and docket-entry filtering\<close>

text \<open>
  A shallow embedding of \<^verbatim>\<open>lookup_row\<close>, \<^verbatim>\<open>make_party_q\<close>, \<^verbatim>\<open>filter_des\<close> and the
  entry-selection step of \<^verbatim>\<open>download_documents\<close> from
  \<^verbatim>\<open>cl/corpus_importer/management/commands/georgia_state_university.py\<close>.
  Exceptions are values of \<open>exn + 'a\<close>; the logger and the queries sent to the database
  are fields of an explicit state.
\<close>

subsection \<open>Exceptions\<close>

datatype exn = IndexError | ValueError | OverflowError | DoesNotExist | MultipleObjectsReturned

definition bind_exn :: "exn + 'a \<Rightarrow> ('a \<Rightarrow> exn + 'b) \<Rightarrow> exn + 'b" where
  "bind_exn m f = (case m of Inl e \<Rightarrow> Inl e | Inr x \<Rightarrow> f x)"

text \<open>\<^verbatim>\<open>xs[i]\<close> for a non-negative index: IndexError out of range.\<close>

definition item :: "'a list \<Rightarrow> nat \<Rightarrow> exn + 'a" where
  "item xs i = (if i < length xs then Inr (xs ! i) else Inl IndexError)"

subsection \<open>Python strings\<close>

text \<open>
  The values of the CSV file are byte strings. \<^verbatim>\<open>lower\<close> of a byte string maps the ASCII
  capitals, \<^verbatim>\<open>split()\<close> cuts at runs of the six ASCII whitespace characters and yields no
  empty token. (The texts of the database are \<^verbatim>\<open>unicode\<close> objects, modelled further down.)
\<close>

definition isspace :: "char \<Rightarrow> bool" where
  "isspace c = (c \<in> set [CHR '' '', CHR 0x09, CHR 0x0A, CHR 0x0B, CHR 0x0C, CHR 0x0D])"

definition lower_char :: "char \<Rightarrow> char" where
  "lower_char c =
     (case map_of (zip ''ABCDEFGHIJKLMNOPQRSTUVWXYZ'' ''abcdefghijklmnopqrstuvwxyz'') c of
        Some l \<Rightarrow> l
      | None \<Rightarrow> c)"

definition str_lower :: "string \<Rightarrow> string" where
  "str_lower s = map lower_char s"

fun split_ws :: "string \<Rightarrow> string \<Rightarrow> string list" where
  "split_ws cur [] = (if cur = [] then [] else [cur])"
| "split_ws cur (c # cs) =
     (if isspace c then (if cur = [] then split_ws [] cs else cur # split_ws [] cs)
      else split_ws (cur @ [c]) cs)"

text \<open>\<^verbatim>\<open>s.split()\<close>\<close>

definition str_split :: "string \<Rightarrow> string list" where
  "str_split s = split_ws [] s"

text \<open>\<^verbatim>\<open>s.startswith(p)\<close>, \<^verbatim>\<open>s.endswith('.')\<close> and \<^verbatim>\<open>sub in s\<close>.\<close>

definition startswith :: "string \<Rightarrow> string \<Rightarrow> bool" where
  "startswith s p = (take (length p) s = p)"

definition endswith_period :: "string \<Rightarrow> bool" where
  "endswith_period s = (s \<noteq> [] \<and> last s = CHR ''.'')"

fun contains :: "string \<Rightarrow> string \<Rightarrow> bool" where
  "contains [] sub = (sub = [])"
| "contains (c # cs) sub = (startswith (c # cs) sub \<or> contains cs sub)"

text \<open>
  \<^verbatim>\<open>s.split(sep, 1)\<close> for a non-empty separator: the text before and after the first
  occurrence of \<open>sep\<close>, or the whole text alone when there is none.
\<close>

fun find_sep :: "string \<Rightarrow> string \<Rightarrow> string \<Rightarrow> (string \<times> string) option" where
  "find_sep sep seen [] = None"
| "find_sep sep seen (c # cs) =
     (if startswith (c # cs) sep then Some (seen, drop (length sep) (c # cs))
      else find_sep sep (seen @ [c]) cs)"

definition str_split_1 :: "string \<Rightarrow> string \<Rightarrow> string list" where
  "str_split_1 sep s = (case find_sep sep [] s of None \<Rightarrow> [s] | Some (a, b) \<Rightarrow> [a, b])"

text \<open>\<^verbatim>\<open>a, b = xs\<close>: ValueError unless \<open>xs\<close> has exactly two items.\<close>

definition unpack_pair :: "'a list \<Rightarrow> exn + ('a \<times> 'a)" where
  "unpack_pair xs = (case xs of [a, b] \<Rightarrow> Inr (a, b) | _ \<Rightarrow> Inl ValueError)"

text \<open>\<^verbatim>\<open>xs[start:stop]\<close> with \<^verbatim>\<open>slice(start, stop)\<close>, \<open>None\<close> for a missing start.\<close>

datatype py_slice = slice "nat option" nat

fun apply_slice :: "py_slice \<Rightarrow> 'a list \<Rightarrow> 'a list" where
  "apply_slice (slice None stop) xs = take stop xs"
| "apply_slice (slice (Some start) stop) xs = take (stop - start) (drop start xs)"

subsection \<open>Dates\<close>

text \<open>
  A date is its proleptic Gregorian ordinal (\<^verbatim>\<open>date.toordinal()\<close>, 1 for 0001-01-01).
  \<^verbatim>\<open>datetime.strptime(s, '%m/%d/%Y')\<close> accepts a month of one or two digits in 1..12, a
  day of one or two digits in 1..31 (or a space and one digit), a year of four digits, and
  raises ValueError for any other text and for a day the month does not have.
\<close>

type_synonym date = int

definition is_leap :: "int \<Rightarrow> bool" where
  "is_leap y = (y mod 4 = 0 \<and> (y mod 100 \<noteq> 0 \<or> y mod 400 = 0))"

definition days_before_year :: "int \<Rightarrow> int" where
  "days_before_year y = (y - 1) * 365 + (y - 1) div 4 - (y - 1) div 100 + (y - 1) div 400"

definition days_in_month :: "int \<Rightarrow> int \<Rightarrow> int" where
  "days_in_month y m =
     (if m = 2 then (if is_leap y then 29 else 28)
      else if m \<in> set [4, 6, 9, 11] then 30 else 31)"

definition days_before_month :: "int \<Rightarrow> int \<Rightarrow> int" where
  "days_before_month y m = sum_list (map (days_in_month y) [1..m - 1])"

definition ymd2ord :: "int \<Rightarrow> int \<Rightarrow> int \<Rightarrow> date" where
  "ymd2ord y m d = days_before_year y + days_before_month y m + d"

definition digit :: "char \<Rightarrow> int option" where
  "digit c = map_of (zip ''0123456789'' [0, 1, 2, 3, 4, 5, 6, 7, 8, 9]) c"

fun digits :: "int \<Rightarrow> string \<Rightarrow> int option" where
  "digits acc [] = Some acc"
| "digits acc (c # cs) = (case digit c of None \<Rightarrow> None | Some v \<Rightarrow> digits (10 * acc + v) cs)"

definition month_directive :: "string \<Rightarrow> int option" where
  "month_directive s =
     (if length s \<in> set [1, 2] then
        (case digits 0 s of Some m \<Rightarrow> if 1 \<le> m \<and> m \<le> 12 then Some m else None | None \<Rightarrow> None)
      else None)"

definition day_directive :: "string \<Rightarrow> int option" where
  "day_directive s =
     (if length s \<in> set [1, 2] then
        (case digits 0 (if length s = 2 \<and> hd s = CHR '' '' then tl s else s) of
           Some d \<Rightarrow> if 1 \<le> d \<and> d \<le> 31 then Some d else None
         | None \<Rightarrow> None)
      else None)"

definition year_directive :: "string \<Rightarrow> int option" where
  "year_directive s = (if length s = 4 then digits 0 s else None)"

fun split_char :: "char \<Rightarrow> string \<Rightarrow> string \<Rightarrow> string list" where
  "split_char sep cur [] = [cur]"
| "split_char sep cur (c # cs) =
     (if c = sep then cur # split_char sep [] cs else split_char sep (cur @ [c]) cs)"

definition strptime :: "string \<Rightarrow> exn + date" where
  "strptime s =
     (case split_char CHR ''/'' [] s of
        [ms, ds, ys] \<Rightarrow>
          (case month_directive ms of
             None \<Rightarrow> Inl ValueError
           | Some m \<Rightarrow>
               (case day_directive ds of
                  None \<Rightarrow> Inl ValueError
                | Some d \<Rightarrow>
                    (case year_directive ys of
                       None \<Rightarrow> Inl ValueError
                     | Some y \<Rightarrow>
                         if 1 \<le> y \<and> d \<le> days_in_month y m then Inr (ymd2ord y m d)
                         else Inl ValueError)))
      | _ \<Rightarrow> Inl ValueError)"

text \<open>\<^verbatim>\<open>d - timedelta(days=n)\<close>: OverflowError before 0001-01-01.\<close>

definition minus_timedelta :: "date \<Rightarrow> int \<Rightarrow> exn + date" where
  "minus_timedelta d n = (if d - n < 1 then Inl OverflowError else Inr (d - n))"

subsection \<open>The FJC table and Django query objects\<close>

text \<open>
  Modelled from the spec: the constants \<^verbatim>\<open>CV_2017\<close> (\<^verbatim>\<open>cl.recap.constants\<close>) and
  \<^verbatim>\<open>Court.FEDERAL_BANKRUPTCY\<close>, \<^verbatim>\<open>Court.FEDERAL_DISTRICT\<close> (\<^verbatim>\<open>cl.search.models\<close>) and the
  fields of \<^verbatim>\<open>FjcIntegratedDatabase\<close> (\<^verbatim>\<open>cl.recap.models\<close>) that \<^verbatim>\<open>lookup_row\<close> reads are
  declared in other modules; each kind has one more value standing for all the others.
\<close>

datatype dataset_source = CV_2017 | OTHER_DATASET

datatype jurisdiction = FEDERAL_BANKRUPTCY | FEDERAL_DISTRICT | OTHER_JURISDICTION

record court =
  fjc_court_id :: string
  jurisdiction :: jurisdiction

record fjc_integrated_database =
  pk :: nat
  dataset_source :: dataset_source
  district :: court
  date_filed :: date
  plaintiff :: string
  defendant :: string
  docket_number :: string

datatype party_field = plaintiff_field | defendant_field

datatype lookup = iexact | istartswith | icontains

text \<open>
  A \<^verbatim>\<open>Q\<close> object is a tree of field lookups; \<^verbatim>\<open>Q()\<close> is empty, and combining with an empty
  \<^verbatim>\<open>Q\<close> gives the other operand back.
\<close>

datatype q = Q_empty | Q_leaf party_field lookup string | Q_and q q | Q_or q q

fun q_and :: "q \<Rightarrow> q \<Rightarrow> q" where
  "q_and a Q_empty = a"
| "q_and Q_empty b = b"
| "q_and a b = Q_and a b"

fun q_or :: "q \<Rightarrow> q \<Rightarrow> q" where
  "q_or a Q_empty = a"
| "q_or Q_empty b = b"
| "q_or a b = Q_or a b"

type_synonym kwarg = "party_field \<times> lookup \<times> string"

fun field_value :: "party_field \<Rightarrow> fjc_integrated_database \<Rightarrow> string" where
  "field_value plaintiff_field r = plaintiff r"
| "field_value defendant_field r = defendant r"

text \<open>The case-insensitive lookups compare the lowered field with the lowered value.\<close>

fun lookup_matches :: "lookup \<Rightarrow> string \<Rightarrow> string \<Rightarrow> bool" where
  "lookup_matches iexact fv v = (str_lower fv = str_lower v)"
| "lookup_matches istartswith fv v = startswith (str_lower fv) (str_lower v)"
| "lookup_matches icontains fv v = contains (str_lower fv) (str_lower v)"

fun q_matches :: "q \<Rightarrow> fjc_integrated_database \<Rightarrow> bool" where
  "q_matches Q_empty r = True"
| "q_matches (Q_leaf f l v) r = lookup_matches l (field_value f r) v"
| "q_matches (Q_and a b) r = (q_matches a r \<and> q_matches b r)"
| "q_matches (Q_or a b) r = (q_matches a r \<or> q_matches b r)"

fun kwarg_matches :: "fjc_integrated_database \<Rightarrow> kwarg \<Rightarrow> bool" where
  "kwarg_matches r (f, l, v) = lookup_matches l (field_value f r) v"

text \<open>\<^verbatim>\<open>queryset.filter(*args, **kwargs)\<close> keeps the order of the queryset.\<close>

definition qs_filter ::
  "q list \<Rightarrow> kwarg list \<Rightarrow> fjc_integrated_database list \<Rightarrow> fjc_integrated_database list" where
  "qs_filter args kwargs qs =
     filter (\<lambda>r. list_all (\<lambda>a. q_matches a r) args \<and> list_all (kwarg_matches r) kwargs) qs"

subsection \<open>The abbreviation table\<close>

text \<open>
  \<^verbatim>\<open>CASE_NAME_ABBREVIATIONS\<close> comes from the package \<^verbatim>\<open>reporters_db\<close>; it is a parameter,
  given as its items. \<^verbatim>\<open>CaseInsensitiveDict\<close> stores each item under its lowered key, a
  later item replacing an earlier one, and lowers the key it is asked for.
\<close>

type_synonym abbreviations = "(string \<times> string list) list"

definition CASE_NAME_IABBREVIATIONS :: "abbreviations \<Rightarrow> string \<Rightarrow> string list option" where
  "CASE_NAME_IABBREVIATIONS tbl word =
     map_of (rev (map (\<lambda>(k, v). (str_lower k, v)) tbl)) (str_lower word)"

subsection \<open>\<^verbatim>\<open>make_party_q\<close>\<close>

definition word_q :: "abbreviations \<Rightarrow> party_field \<Rightarrow> string \<Rightarrow> q" where
  "word_q tbl lookup_field word =
     (case (if endswith_period word then CASE_NAME_IABBREVIATIONS tbl word else None) of
        Some expansions \<Rightarrow>
          foldl (\<lambda>q abbrev. q_or q (Q_leaf lookup_field icontains abbrev))
            (Q_leaf lookup_field icontains word) expansions
      | None \<Rightarrow> Q_leaf lookup_field icontains word)"

definition make_party_q :: "abbreviations \<Rightarrow> string \<Rightarrow> party_field \<Rightarrow> py_slice \<Rightarrow> q" where
  "make_party_q tbl party lookup_field term_slice =
     foldl (\<lambda>new_q word. q_and new_q (word_q tbl lookup_field word)) Q_empty
       (apply_slice term_slice (str_split party))"

subsection \<open>The logger and the queries sent\<close>

datatype level = WARNING | INFO

datatype message =
    Unable_to_find_v
  | Got_multiple_v
  | Unable_to_find_result "q list" "kwarg list"
  | Got_one_result "q list" "kwarg list"
  | Got_results nat
  | Got_too_many_results "q list" "kwarg list"
  | No_docket_entries_found nat

text \<open>
  A queryset is lazy: building \<^verbatim>\<open>orig_query\<close> sends nothing; \<^verbatim>\<open>results.count()\<close> and
  \<^verbatim>\<open>results[0]\<close> each send one query.
\<close>

datatype query = Count "q list" "kwarg list" | First "q list" "kwarg list"

record state =
  log :: "(level \<times> message) list"
  queries :: "query list"

definition logger :: "level \<Rightarrow> message \<Rightarrow> state \<Rightarrow> state" where
  "logger lvl msg st = st\<lparr>log := log st @ [(lvl, msg)]\<rparr>"

definition send :: "query \<Rightarrow> state \<Rightarrow> state" where
  "send qu st = st\<lparr>queries := queries st @ [qu]\<rparr>"

subsection \<open>\<^verbatim>\<open>lookup_row\<close>\<close>

record row =
  Case_Name :: string
  Date :: string
  AO_ID :: string

text \<open>
  \<^verbatim>\<open>orig_query\<close>: the filter, the exclusion and the descending order by \<^verbatim>\<open>date_filed\<close>.
  Rows filed on the same day stay in the order of the table.
\<close>

definition orig_query ::
  "fjc_integrated_database list \<Rightarrow> string \<Rightarrow> date \<Rightarrow> date \<Rightarrow> fjc_integrated_database list" where
  "orig_query table ao_id opinion_date earliest =
     sort_key (\<lambda>r. - date_filed r)
       (filter (\<lambda>r. \<not> (jurisdiction (district r) = FEDERAL_BANKRUPTCY))
         (filter (\<lambda>r. dataset_source r = CV_2017 \<and> fjc_court_id (district r) = ao_id \<and>
                     date_filed r \<le> opinion_date \<and> date_filed r \<ge> earliest) table))"

definition filter_tuples :: "abbreviations \<Rightarrow> string \<Rightarrow> string \<Rightarrow> (q list \<times> kwarg list) list" where
  "filter_tuples tbl plaintiff_text defendant_text =
     [([],
       [(plaintiff_field, iexact, take 30 plaintiff_text),
        (defendant_field, iexact, take 30 defendant_text)]),
      ([],
       [(plaintiff_field, istartswith, take 30 plaintiff_text),
        (defendant_field, istartswith, take 30 defendant_text)]),
      ([make_party_q tbl defendant_text defendant_field (slice None 3),
        make_party_q tbl plaintiff_text plaintiff_field (slice None 3)],
       []),
      ([make_party_q tbl defendant_text defendant_field (slice None 1),
        make_party_q tbl plaintiff_text plaintiff_field (slice None 1)],
       []),
      ([make_party_q tbl plaintiff_text plaintiff_field (slice (Some 1) 2),
        make_party_q tbl defendant_text defendant_field (slice None 1)],
       [])]"

text \<open>The loop over \<^verbatim>\<open>filter_tuples\<close>.\<close>

fun broaden ::
  "fjc_integrated_database list \<Rightarrow> (q list \<times> kwarg list) list \<Rightarrow> state \<Rightarrow>
     (exn + fjc_integrated_database option) \<times> state" where
  "broaden pool [] st = (Inr None, st)"
| "broaden pool ((args, kwargs) # rest) st =
     (let results = qs_filter args kwargs pool;
          count = length results;
          st1 = send (Count args kwargs) st
      in if count = 0 then
           broaden pool rest (logger WARNING (Unable_to_find_result args kwargs) st1)
         else if count = 1 then
           (case item results 0 of
              Inl e \<Rightarrow> (Inl e, send (First args kwargs) (logger INFO (Got_one_result args kwargs) st1))
            | Inr r \<Rightarrow>
                (Inr (Some r),
                 send (First args kwargs) (logger INFO (Got_one_result args kwargs) st1)))
         else if 5 > count \<and> count > 1 then
           (case item results 0 of
              Inl e \<Rightarrow> (Inl e, send (First args kwargs) (logger INFO (Got_results count) st1))
            | Inr r \<Rightarrow>
                (Inr (Some r), send (First args kwargs) (logger INFO (Got_results count) st1)))
         else
           (Inr None, logger WARNING (Got_too_many_results args kwargs) st1))"

definition lookup_row ::
  "abbreviations \<Rightarrow> fjc_integrated_database list \<Rightarrow> row \<Rightarrow> state \<Rightarrow>
     (exn + fjc_integrated_database option) \<times> state" where
  "lookup_row tbl table row st =
     (case unpack_pair (str_split_1 '' v. '' (str_lower (Case_Name row))) of
        Inl e \<Rightarrow>
          if e = IndexError then (Inr None, logger WARNING Unable_to_find_v st)
          else if e = ValueError then (Inr None, logger WARNING Got_multiple_v st)
          else (Inl e, st)
      | Inr (plaintiff_text, defendant_text) \<Rightarrow>
          (case strptime (Date row) of
             Inl e \<Rightarrow> (Inl e, st)
           | Inr opinion_date \<Rightarrow>
               (case minus_timedelta opinion_date (365 * 5) of
                  Inl e \<Rightarrow> (Inl e, st)
                | Inr earliest \<Rightarrow>
                    broaden (orig_query table (AO_ID row) opinion_date earliest)
                      (filter_tuples tbl plaintiff_text defendant_text) st)))"

subsection \<open>Unicode texts\<close>

text \<open>
  The descriptions come from the database as \<^verbatim>\<open>unicode\<close> objects, here lists of code
  points. \<^verbatim>\<open>split()\<close> of a \<^verbatim>\<open>unicode\<close> object cuts at runs of the whitespace of the
  Unicode database of Python 2.7 (Unicode 5.2): beside the six ASCII characters, the
  separators U+001C to U+001F, U+0085, U+00A0, U+1680, U+180E, U+2000 to U+200A, U+2028,
  U+2029, U+202F, U+205F and U+3000. (The module is Python 2: the queries of
  \<^verbatim>\<open>lookup_row\<close> are built from the byte strings of the CSV file, the descriptions are
  \<^verbatim>\<open>unicode\<close>. A later database, as Python 3 reads it, no longer counts U+180E as
  whitespace and gives U+0130 a lower-case form of two code points, \<open>i\<close> and U+0307.)
\<close>

type_synonym unicode = "int list"

definition unicode_isspace :: "int \<Rightarrow> bool" where
  "unicode_isspace c =
     (c \<in> set [0x09, 0x0A, 0x0B, 0x0C, 0x0D, 0x1C, 0x1D, 0x1E, 0x1F, 0x20, 0x85, 0xA0,
               0x1680, 0x180E, 0x2000, 0x2001, 0x2002, 0x2003, 0x2004, 0x2005, 0x2006,
               0x2007, 0x2008, 0x2009, 0x200A, 0x2028, 0x2029, 0x202F, 0x205F, 0x3000])"

fun unicode_split_ws :: "unicode \<Rightarrow> unicode \<Rightarrow> unicode list" where
  "unicode_split_ws cur [] = (if cur = [] then [] else [cur])"
| "unicode_split_ws cur (c # cs) =
     (if unicode_isspace c then
        (if cur = [] then unicode_split_ws [] cs else cur # unicode_split_ws [] cs)
      else unicode_split_ws (cur @ [c]) cs)"

definition unicode_split :: "unicode \<Rightarrow> unicode list" where
  "unicode_split s = unicode_split_ws [] s"

text \<open>
  \<^verbatim>\<open>lower()\<close> of a \<^verbatim>\<open>unicode\<close> object maps each code point to its lower-case form. The
  ASCII capitals are mapped, and the two code points beyond ASCII whose lower-case form
  is an ASCII letter: U+0130 to \<open>i\<close> and U+212A to \<open>k\<close>. Any other code point beyond ASCII
  has a lower-case form beyond ASCII and is left in place: it can equal no letter of the
  vocabulary either way (lemma \<open>spec_kept_any_lower\<close> below).
\<close>

definition unicode_lower_char :: "int \<Rightarrow> int" where
  "unicode_lower_char c =
     (if 0x41 \<le> c \<and> c \<le> 0x5A then c + 0x20
      else if c = 0x130 then 0x69
      else if c = 0x212A then 0x6B
      else c)"

definition unicode_lower :: "unicode \<Rightarrow> unicode" where
  "unicode_lower s = map unicode_lower_char s"

text \<open>
  A byte string of the source text that meets a \<^verbatim>\<open>unicode\<close> object is decoded first: each
  ASCII character is its code point.
\<close>

definition ascii_decode :: "string \<Rightarrow> unicode" where
  "ascii_decode s = map of_char s"

subsection \<open>\<^verbatim>\<open>filter_des\<close>\<close>

datatype document_type = PACER_DOCUMENT | ATTACHMENT

record recap_document =
  document_type :: document_type
  rd_description :: unicode
  pacer_doc_id :: string

record docket_entry =
  description :: unicode
  recap_documents :: "recap_document list"

definition core_words :: "string list" where
  "core_words =
     [''decided'', ''decision'', ''denial'', ''denied'', ''denying'', ''entered'',
      ''entry'', ''finding'', ''findings'', ''grant'', ''granted'', ''granting'',
      ''judge'', ''magistrate'', ''opinion'', ''order'', ''ordered '',
      ''recommendation'']"

definition prefix_words :: "string list" where
  "prefix_words =
     [''amended'', ''corrected'', ''final'', ''further'', ''initial'', ''modified'', ''revised'']"

definition pre_prefix_words :: "string list" where
  "pre_prefix_words = [''memorandum'', ''report'']"

text \<open>\<^verbatim>\<open>de.recap_documents.get(document_type=t)\<close>\<close>

definition get_document :: "document_type \<Rightarrow> recap_document list \<Rightarrow> exn + recap_document" where
  "get_document t rds =
     (case filter (\<lambda>rd. document_type rd = t) rds of
        [] \<Rightarrow> Inl DoesNotExist
      | [rd] \<Rightarrow> Inr rd
      | _ \<Rightarrow> Inl MultipleObjectsReturned)"

text \<open>The text that is classified: the entry's own, or its primary document's.\<close>

definition desc_of :: "docket_entry \<Rightarrow> exn + unicode" where
  "desc_of de =
     (if description de = [] then
        bind_exn (get_document PACER_DOCUMENT (recap_documents de)) (\<lambda>rd. Inr (rd_description rd))
      else Inr (description de))"

text \<open>
  \<^verbatim>\<open>words[i] in vocabulary\<close>, the word a \<^verbatim>\<open>unicode\<close> object and the vocabulary a list of
  byte strings, and Python's short-circuit \<^verbatim>\<open>and\<close> and \<^verbatim>\<open>or\<close>.
\<close>

definition word_in :: "unicode list \<Rightarrow> nat \<Rightarrow> string list \<Rightarrow> exn + bool" where
  "word_in words i vocabulary =
     bind_exn (item words i) (\<lambda>w. Inr (w \<in> set (map ascii_decode vocabulary)))"

definition py_and :: "exn + bool \<Rightarrow> exn + bool \<Rightarrow> exn + bool" where
  "py_and a b = bind_exn a (\<lambda>x. if x then b else Inr False)"

definition py_or :: "exn + bool \<Rightarrow> exn + bool \<Rightarrow> exn + bool" where
  "py_or a b = bind_exn a (\<lambda>x. if x then Inr True else b)"

text \<open>The four items of the list given to \<^verbatim>\<open>any\<close>, in the order of the source.\<close>

definition rules :: "unicode list \<Rightarrow> (exn + bool) list" where
  "rules words =
     [word_in words 0 core_words,
      py_and (word_in words 0 prefix_words) (word_in words 1 core_words),
      py_and (word_in words 0 pre_prefix_words)
        (py_or (word_in words 1 core_words) (word_in words 2 core_words)),
      py_and (word_in words 0 prefix_words)
        (py_and (word_in words 1 pre_prefix_words)
           (py_or (word_in words 2 core_words) (word_in words 3 core_words)))]"

text \<open>A list display evaluates its items from the left; the first exception leaves it.\<close>

fun list_display :: "(exn + 'a) list \<Rightarrow> exn + 'a list" where
  "list_display [] = Inr []"
| "list_display (m # ms) =
     bind_exn m (\<lambda>x. bind_exn (list_display ms) (\<lambda>xs. Inr (x # xs)))"

definition any_rule :: "unicode list \<Rightarrow> exn + bool" where
  "any_rule words = bind_exn (list_display (rules words)) (\<lambda>bs. Inr (list_ex (\<lambda>b. b) bs))"

fun filter_des_loop :: "docket_entry list \<Rightarrow> docket_entry list \<Rightarrow> exn + docket_entry list" where
  "filter_des_loop [] good_des = Inr good_des"
| "filter_des_loop (de # des) good_des =
     (case desc_of de of
        Inl e \<Rightarrow> Inl e
      | Inr desc \<Rightarrow>
          (case any_rule (unicode_split (unicode_lower desc)) of
             Inl e \<Rightarrow> if e = IndexError then filter_des_loop des good_des else Inl e
           | Inr b \<Rightarrow>
               if b then filter_des_loop des (good_des @ [de])
               else filter_des_loop des good_des))"

definition filter_des :: "docket_entry list \<Rightarrow> exn + docket_entry list" where
  "filter_des des = filter_des_loop des []"

subsection \<open>Choosing the entries in \<^verbatim>\<open>download_documents\<close>\<close>

text \<open>
  The part of the loop body of \<^verbatim>\<open>download_documents\<close> that computes \<^verbatim>\<open>good_des\<close> from
  the entries \<^verbatim>\<open>des\<close> of row \<open>i\<close>; \<open>None\<close> stands for \<^verbatim>\<open>continue\<close>.
\<close>

definition download_documents_good_des ::
  "nat \<Rightarrow> docket_entry list \<Rightarrow> state \<Rightarrow> (exn + docket_entry list option) \<times> state" where
  "download_documents_good_des i des st =
     (let count = length des
      in if count = 0 then (Inr None, logger WARNING (No_docket_entries_found i) st)
         else if length des = 1 then
           (bind_exn (item des 0) (\<lambda>de. Inr (Some [de])), st)
         else (bind_exn (filter_des des) (\<lambda>good_des. Inr (Some good_des)), st))"

subsection \<open>The grammar rules as the specification words them\<close>

text \<open>
  A rule that asks for a token the text does not have is not matched; the entry is kept
  when one of the four rules is matched.
\<close>

definition spec_token_in :: "unicode list \<Rightarrow> nat \<Rightarrow> string list \<Rightarrow> bool" where
  "spec_token_in token i vocabulary =
     (i < length token \<and> token ! i \<in> set (map ascii_decode vocabulary))"

definition spec_kept :: "unicode list \<Rightarrow> bool" where
  "spec_kept token =
     (spec_token_in token 0 core_words \<or>
      (spec_token_in token 0 prefix_words \<and> spec_token_in token 1 core_words) \<or>
      (spec_token_in token 0 pre_prefix_words \<and>
         (spec_token_in token 1 core_words \<or> spec_token_in token 2 core_words)) \<or>
      (spec_token_in token 0 prefix_words \<and> spec_token_in token 1 pre_prefix_words \<and>
         (spec_token_in token 2 core_words \<or> spec_token_in token 3 core_words)))"

definition spec_entry_kept :: "docket_entry \<Rightarrow> bool" where
  "spec_entry_kept de =
     (case desc_of de of
        Inl e \<Rightarrow> False
      | Inr desc \<Rightarrow> spec_kept (unicode_split (unicode_lower desc)))"

text \<open>
  An entry has a text to classify when its own description is not empty, or when it has
  exactly one primary document to take the description from.
\<close>

definition has_text :: "docket_entry \<Rightarrow> bool" where
  "has_text de =
     (description de \<noteq> [] \<or>
      length (filter (\<lambda>rd. document_type rd = PACER_DOCUMENT) (recap_documents de)) = 1)"

subsection \<open>The per-token predicate and the candidate pool as the specification words them\<close>

text \<open>
  A token that ends with a period and is a key of the abbreviation table is matched by a
  record that contains the token or one of its expansions; any other token by a record
  that contains the token.
\<close>

definition spec_token_predicate ::
  "abbreviations \<Rightarrow> party_field \<Rightarrow> fjc_integrated_database \<Rightarrow> string \<Rightarrow> bool" where
  "spec_token_predicate tbl f r token =
     (if endswith_period token \<and> CASE_NAME_IABBREVIATIONS tbl token \<noteq> None then
        list_ex (\<lambda>t. lookup_matches icontains (field_value f r) t)
          (token # the (CASE_NAME_IABBREVIATIONS tbl token))
      else lookup_matches icontains (field_value f r) token)"

text \<open>
  The pool with the window of five calendar years: from the day of the same month and
  number five years before the reference date \<open>y\<close>-\<open>m\<close>-\<open>d\<close>, to the reference date.
\<close>

definition spec_candidate_pool ::
  "fjc_integrated_database list \<Rightarrow> string \<Rightarrow> int \<Rightarrow> int \<Rightarrow> int \<Rightarrow> fjc_integrated_database list" where
  "spec_candidate_pool table forum y m d =
     sort_key (\<lambda>r. - date_filed r)
       (filter (\<lambda>r. dataset_source r = CV_2017 \<and> jurisdiction (district r) \<noteq> FEDERAL_BANKRUPTCY \<and>
                   fjc_court_id (district r) = forum \<and>
                   ymd2ord (y - 5) m d \<le> date_filed r \<and> date_filed r \<le> ymd2ord y m d) table)"

text \<open>
  The plaintiff's and the defendant's slice in the three token stages (the third, fourth
  and fifth items of \<^verbatim>\<open>filter_tuples\<close>).
\<close>

definition token_stage_slices :: "(py_slice \<times> py_slice) list" where
  "token_stage_slices =
     [(slice None 3, slice None 3), (slice None 1, slice None 1), (slice (Some 1) 2, slice None 1)]"

text \<open>The state after the stages \<open>pre\<close> have each counted no result.\<close>

definition broadened :: "(q list \<times> kwarg list) list \<Rightarrow> state \<Rightarrow> state" where
  "broadened pre st =
     st\<lparr>log := log st @ map (\<lambda>(a, k). (WARNING, Unable_to_find_result a k)) pre,
        queries := queries st @ map (\<lambda>(a, k). Count a k) pre\<rparr>"

text \<open>
  Two code points are alike for the vocabulary when both or neither are whitespace, and
  they are equal or both beyond ASCII.
\<close>

definition alike :: "int \<Rightarrow> int \<Rightarrow> bool" where
  "alike c c' =
     (unicode_isspace c = unicode_isspace c' \<and> (c = c' \<or> (128 \<le> c \<and> 128 \<le> c')))"

section \<open>Properties of \<^verbatim>\<open>filter_des\<close> and of the choice of entries\<close>

subsection \<open>The rules\<close>

lemma ascii_decode_eq: "(ascii_decode a = ascii_decode b) = (a = b)"
proof -
  have "inj (of_char :: char \<Rightarrow> int)" by (rule injI) simp
  then show ?thesis by (simp add: ascii_decode_def inj_map_eq_map)
qed

lemma ascii_decode_mem: "(ascii_decode a \<in> set (map ascii_decode v)) = (a \<in> set v)"
  by (auto simp: ascii_decode_eq)

lemma word_in_eq:
  "word_in words i v =
     (if i < length words then Inr (words ! i \<in> set (map ascii_decode v)) else Inl IndexError)"
  by (simp add: word_in_def item_def bind_exn_def)

text \<open>The three vocabularies share no word.\<close>

lemma core_not_prefix:
  "w \<in> set (map ascii_decode core_words) \<Longrightarrow> w \<notin> set (map ascii_decode prefix_words)"
proof -
  have "\<And>a. a \<in> set core_words \<Longrightarrow> a \<notin> set prefix_words"
    by (auto simp: core_words_def prefix_words_def)
  then show "w \<in> set (map ascii_decode core_words) \<Longrightarrow> w \<notin> set (map ascii_decode prefix_words)"
    by (auto simp: ascii_decode_eq)
qed

lemma core_not_pre_prefix:
  "w \<in> set (map ascii_decode core_words) \<Longrightarrow> w \<notin> set (map ascii_decode pre_prefix_words)"
proof -
  have "\<And>a. a \<in> set core_words \<Longrightarrow> a \<notin> set pre_prefix_words"
    by (auto simp: core_words_def pre_prefix_words_def)
  then show "w \<in> set (map ascii_decode core_words) \<Longrightarrow>
      w \<notin> set (map ascii_decode pre_prefix_words)"
    by (auto simp: ascii_decode_eq)
qed

lemma prefix_not_pre_prefix:
  "w \<in> set (map ascii_decode prefix_words) \<Longrightarrow> w \<notin> set (map ascii_decode pre_prefix_words)"
proof -
  have "\<And>a. a \<in> set prefix_words \<Longrightarrow> a \<notin> set pre_prefix_words"
    by (auto simp: prefix_words_def pre_prefix_words_def)
  then show "w \<in> set (map ascii_decode prefix_words) \<Longrightarrow>
      w \<notin> set (map ascii_decode pre_prefix_words)"
    by (auto simp: ascii_decode_eq)
qed

text \<open>
  IndexError leaves the list display only where every rule is false with the missing
  token counted as no match: a rule that holds never shares its first words with a rule
  that reads past the end.
\<close>

lemma any_rule_cases:
  "any_rule words =
     (if spec_kept words then Inr True
      else if words = [] \<or>
        (words ! 0 \<in> set (map ascii_decode prefix_words) \<and> length words < 2) \<or>
        (words ! 0 \<in> set (map ascii_decode pre_prefix_words) \<and> length words < 3) \<or>
        (words ! 0 \<in> set (map ascii_decode prefix_words) \<and>
         words ! 1 \<in> set (map ascii_decode pre_prefix_words) \<and> length words < 4)
      then Inl IndexError
      else Inr False)"
  using core_not_prefix[of "words ! 0"] core_not_pre_prefix[of "words ! 0"]
    prefix_not_pre_prefix[of "words ! 0"] core_not_pre_prefix[of "words ! 1"]
  by (auto simp: any_rule_def rules_def word_in_eq py_and_def py_or_def bind_exn_def
      spec_kept_def spec_token_in_def simp del: set_map)

lemma any_rule_Inr: "any_rule words = Inr b \<Longrightarrow> b = spec_kept words"
  by (simp add: any_rule_cases split: if_splits)

lemma any_rule_Inl: "any_rule words = Inl e \<Longrightarrow> e = IndexError \<and> \<not> spec_kept words"
  by (simp add: any_rule_cases split: if_splits)

subsection \<open>The loop\<close>

lemma desc_of_has_text: "has_text de \<Longrightarrow> \<exists>desc. desc_of de = Inr desc"
  by (auto simp: has_text_def desc_of_def get_document_def bind_exn_def split: list.splits)

lemma filter_des_loop_eq:
  "list_all has_text des \<Longrightarrow>
   filter_des_loop des good_des = Inr (good_des @ filter spec_entry_kept des)"
proof (induction des arbitrary: good_des)
  case Nil
  then show ?case by simp
next
  case (Cons de des)
  from Cons.prems obtain desc where d: "desc_of de = Inr desc"
    using desc_of_has_text by auto
  from Cons.prems have rest: "list_all has_text des" by simp
  show ?case
  proof (cases "any_rule (unicode_split (unicode_lower desc))")
    case (Inl e)
    with any_rule_Inl
    have "e = IndexError" "\<not> spec_kept (unicode_split (unicode_lower desc))" by auto
    with Inl d Cons.IH[OF rest] show ?thesis by (simp add: spec_entry_kept_def)
  next
    case (Inr b)
    with any_rule_Inr have "b = spec_kept (unicode_split (unicode_lower desc))" by auto
    with Inr d Cons.IH[OF rest] show ?thesis by (simp add: spec_entry_kept_def)
  qed
qed

text \<open>
  Conversely, \<^verbatim>\<open>filter_des\<close> returns a list only when every entry has a text to classify.
\<close>

lemma desc_of_without_text: "\<not> has_text de \<Longrightarrow> \<exists>e. desc_of de = Inl e"
  by (auto simp: has_text_def desc_of_def get_document_def bind_exn_def split: list.splits)

lemma filter_des_loop_returns:
  "filter_des_loop des good_des = Inr good \<Longrightarrow> list_all has_text des"
proof (induction des arbitrary: good_des)
  case Nil
  then show ?case by simp
next
  case (Cons de des)
  from Cons.prems have t: "has_text de"
    using desc_of_without_text[of de] by (cases "has_text de") auto
  from Cons.prems have "\<exists>acc. filter_des_loop des acc = Inr good"
    by (auto split: sum.splits if_splits)
  with Cons.IH t show ?case by auto
qed

text \<open>
  When every entry has a text to classify, \<^verbatim>\<open>filter_des\<close> returns, in the order of the
  input, exactly the entries whose lowered and whitespace-split description satisfies one
  of the four rules, a rule that reads past the last token counting as not matched. The
  source leaves the whole list display at the first IndexError, yet the entries kept are
  the same as if the other rules had still been evaluated.
\<close>

lemma filter_des_keeps_rule_matches:
  assumes "list_all has_text des"
  shows "filter_des des = Inr (filter spec_entry_kept des)"
  using filter_des_loop_eq[OF assms, of "[]"] by (simp add: filter_des_def)

text \<open>
  An example, with a text that \<^verbatim>\<open>split()\<close> cuts at the separator U+001F, a text whose second
  rule reads past the end, and a text taken from the primary document.
\<close>

lemma filter_des_keeps_rule_matches_example:
  "filter_des
     [\<lparr>description = ascii_decode ''Order granting motion to dismiss'', recap_documents = []\<rparr>,
      \<lparr>description = ascii_decode ''Letter from counsel'', recap_documents = []\<rparr>,
      \<lparr>description = ascii_decode ''amended'' @ [0x1F] @ ascii_decode ''order'',
       recap_documents = []\<rparr>,
      \<lparr>description = ascii_decode ''Amended Report'', recap_documents = []\<rparr>,
      \<lparr>description = ascii_decode ''Amended memorandum opinion and order'',
       recap_documents = []\<rparr>,
      \<lparr>description = [], recap_documents =
         [\<lparr>document_type = PACER_DOCUMENT,
           rd_description = ascii_decode ''Report and Recommendation'',
           pacer_doc_id = ''0123''\<rparr>]\<rparr>] =
   Inr [\<lparr>description = ascii_decode ''Order granting motion to dismiss'', recap_documents = []\<rparr>,
        \<lparr>description = ascii_decode ''amended'' @ [0x1F] @ ascii_decode ''order'',
         recap_documents = []\<rparr>,
        \<lparr>description = ascii_decode ''Amended memorandum opinion and order'',
         recap_documents = []\<rparr>,
        \<lparr>description = [], recap_documents =
           [\<lparr>document_type = PACER_DOCUMENT,
             rd_description = ascii_decode ''Report and Recommendation'',
             pacer_doc_id = ''0123''\<rparr>]\<rparr>]"
  (is "filter_des ?des = Inr ?good")
proof -
  have h: "list_all has_text ?des" by code_simp
  have "filter spec_entry_kept ?des = ?good" by code_simp
  with filter_des_keeps_rule_matches[OF h] show ?thesis by simp
qed

text \<open>
  C5. The claim is that for every input of several entries \<^verbatim>\<open>filter_des\<close> keeps exactly
  the entries whose description satisfies one of the four rules. Here \<^verbatim>\<open>filter_des\<close> is
  evaluated on two entries: the first begins with the core word \<open>order\<close>, so the claim
  keeps it; the second has an empty description and an attachment but no primary
  document. DoesNotExist leaves \<^verbatim>\<open>filter_des\<close> and no entry is kept.
\<close>

theorem filter_des_keeps_nothing_after_entry_without_text:
  "spec_entry_kept
     \<lparr>description = ascii_decode ''Order granting motion to dismiss'', recap_documents = []\<rparr> \<and>
   filter_des
     [\<lparr>description = ascii_decode ''Order granting motion to dismiss'', recap_documents = []\<rparr>,
      \<lparr>description = [], recap_documents =
         [\<lparr>document_type = ATTACHMENT, rd_description = ascii_decode ''Exhibit A'',
           pacer_doc_id = ''0456''\<rparr>]\<rparr>] =
     Inl DoesNotExist"
  by (intro conjI; code_simp)

subsection \<open>Lower-case forms beyond ASCII\<close>

text \<open>
  Whatever the lower-case forms of the code points beyond ASCII are, as long as they are
  beyond ASCII as well and whitespace stays whitespace, the rules hold for the same texts:
  a token with such a code point is no vocabulary word.
\<close>

lemma alike_lower:
  assumes "\<forall>c. c < 128 \<or> c = 0x130 \<or> c = 0x212A \<longrightarrow> g c = unicode_lower_char c"
    and "\<forall>c. 128 \<le> c \<and> c \<noteq> 0x130 \<and> c \<noteq> 0x212A \<longrightarrow>
           128 \<le> g c \<and> unicode_isspace (g c) = unicode_isspace c"
  shows "alike (g c) (unicode_lower_char c)"
proof (cases "c < 128 \<or> c = 0x130 \<or> c = 0x212A")
  case True
  with assms(1) have "g c = unicode_lower_char c" by blast
  then show ?thesis by (simp add: alike_def)
next
  case False
  then have "unicode_lower_char c = c" by (simp add: unicode_lower_char_def)
  with False assms(2) show ?thesis by (simp add: alike_def)
qed

lemma alike_split_ws:
  "list_all2 alike xs ys \<Longrightarrow> list_all2 alike cur cur' \<Longrightarrow>
   list_all2 (list_all2 alike) (unicode_split_ws cur xs) (unicode_split_ws cur' ys)"
proof (induction xs arbitrary: ys cur cur')
  case Nil
  then show ?case by auto
next
  case (Cons x xs)
  then obtain y ys' where ys: "ys = y # ys'" and xy: "alike x y" and rest: "list_all2 alike xs ys'"
    by (auto simp: list_all2_Cons1)
  from xy have sp: "unicode_isspace x = unicode_isspace y" by (simp add: alike_def)
  from Cons.prems(2) have e: "(cur = []) = (cur' = [])" by auto
  from Cons.prems(2) xy have app: "list_all2 alike (cur @ [x]) (cur' @ [y])"
    by (simp add: list_all2_appendI)
  show ?case
    using Cons.IH[OF rest, of "[]" "[]"] Cons.IH[OF rest app] Cons.prems(2) e sp
    by (simp add: ys)
qed

lemma alike_ascii: "list_all2 alike t t' \<Longrightarrow> \<forall>c \<in> set t. c < 128 \<Longrightarrow> t = t'"
  by (induction t t' rule: list_all2_induct) (auto simp: alike_def)

lemma alike_sym: "list_all2 alike t t' \<Longrightarrow> list_all2 alike t' t"
  by (induction t t' rule: list_all2_induct) (auto simp: alike_def)

lemma vocabulary_ascii:
  "v = core_words \<or> v = prefix_words \<or> v = pre_prefix_words \<Longrightarrow>
   w \<in> set (map ascii_decode v) \<Longrightarrow> \<forall>c \<in> set w. c < 128"
  by (auto simp: core_words_def prefix_words_def pre_prefix_words_def ascii_decode_def)

lemma alike_token_in:
  assumes "list_all2 (list_all2 alike) ts ts'"
    and "v = core_words \<or> v = prefix_words \<or> v = pre_prefix_words"
  shows "spec_token_in ts i v = spec_token_in ts' i v"
proof -
  from assms(1) have len: "length ts = length ts'" by (rule list_all2_lengthD)
  show ?thesis
  proof (cases "i < length ts")
    case False
    with len show ?thesis by (simp add: spec_token_in_def)
  next
    case True
    with assms(1) have a: "list_all2 alike (ts ! i) (ts' ! i)" by (simp add: list_all2_nthD)
    have "(ts ! i \<in> set (map ascii_decode v)) = (ts' ! i \<in> set (map ascii_decode v))"
      using alike_ascii[OF a] alike_ascii[OF alike_sym[OF a]]
        vocabulary_ascii[OF assms(2), of "ts ! i"] vocabulary_ascii[OF assms(2), of "ts' ! i"]
      by metis
    with True len show ?thesis by (simp add: spec_token_in_def)
  qed
qed

lemma spec_kept_any_lower:
  assumes "\<forall>c. c < 128 \<or> c = 0x130 \<or> c = 0x212A \<longrightarrow> g c = unicode_lower_char c"
    and "\<forall>c. 128 \<le> c \<and> c \<noteq> 0x130 \<and> c \<noteq> 0x212A \<longrightarrow>
           128 \<le> g c \<and> unicode_isspace (g c) = unicode_isspace c"
  shows "spec_kept (unicode_split (map g s)) = spec_kept (unicode_split (unicode_lower s))"
proof -
  have "list_all2 alike (map g s) (unicode_lower s)"
    using alike_lower[OF assms] by (simp add: unicode_lower_def list_all2_conv_all_nth)
  then have "list_all2 (list_all2 alike) (unicode_split (map g s)) (unicode_split (unicode_lower s))"
    unfolding unicode_split_def by (rule alike_split_ws) simp
  then show ?thesis
    unfolding spec_kept_def by (simp add: alike_token_in cong: conj_cong)
qed

subsection \<open>The vocabulary word with a trailing space\<close>

lemma filter_des_loop_subset:
  "filter_des_loop des acc = Inr good_des \<Longrightarrow> de \<in> set good_des \<Longrightarrow>
   de \<in> set acc \<or> (de \<in> set des \<and> spec_entry_kept de)"
proof (induction des arbitrary: acc)
  case Nil
  then show ?case by simp
next
  case (Cons x des)
  then show ?case
    by (fastforce simp: spec_entry_kept_def split: sum.splits if_splits dest: any_rule_Inr)
qed

lemma unicode_split_ws_no_space:
  "\<forall>c \<in> set cur. \<not> unicode_isspace c \<Longrightarrow> w \<in> set (unicode_split_ws cur s) \<Longrightarrow>
   c \<in> set w \<Longrightarrow> \<not> unicode_isspace c"
  by (induction cur s rule: unicode_split_ws.induct) (auto split: if_splits)

lemma unicode_split_no_space:
  "w \<in> set (unicode_split s) \<Longrightarrow> c \<in> set w \<Longrightarrow> \<not> unicode_isspace c"
  using unicode_split_ws_no_space[of "[]" w s c] by (simp add: unicode_split_def)

lemma ordered_not_kept:
  "item words 0 = Inr (ascii_decode ''ordered'') \<Longrightarrow> \<not> spec_kept words"
proof -
  assume "item words 0 = Inr (ascii_decode ''ordered'')"
  then have w: "0 < length words" "words ! 0 = ascii_decode ''ordered''"
    by (auto simp: item_def split: if_splits)
  have "''ordered'' \<notin> set core_words" "''ordered'' \<notin> set prefix_words"
    "''ordered'' \<notin> set pre_prefix_words"
    by (simp_all add: core_words_def prefix_words_def pre_prefix_words_def)
  then have "words ! 0 \<notin> set (map ascii_decode core_words)"
    "words ! 0 \<notin> set (map ascii_decode prefix_words)"
    "words ! 0 \<notin> set (map ascii_decode pre_prefix_words)"
    unfolding w(2) ascii_decode_mem by simp_all
  then show ?thesis by (simp add: spec_kept_def spec_token_in_def)
qed

text \<open>
  C10. The vocabulary word \<open>''ordered ''\<close> ends with a space and no token of \<^verbatim>\<open>split()\<close> holds a
  space, so no token equals it; an entry whose text begins with the token \<open>''ordered''\<close> is
  in no list that \<^verbatim>\<open>filter_des\<close> returns (with that first token no other rule can hold).
\<close>

theorem ordered_with_space_never_matches:
  "ascii_decode ''ordered '' \<notin> set (unicode_split s) \<and>
   (desc_of de = Inr desc \<and>
    item (unicode_split (unicode_lower desc)) 0 = Inr (ascii_decode ''ordered'') \<and>
    filter_des des = Inr good_des \<longrightarrow> de \<notin> set good_des)"
proof (intro conjI impI)
  have "32 \<in> set (ascii_decode ''ordered '')" by (simp add: ascii_decode_def)
  moreover have "unicode_isspace 32" by (simp add: unicode_isspace_def)
  ultimately show "ascii_decode ''ordered '' \<notin> set (unicode_split s)"
    using unicode_split_no_space[of "ascii_decode ''ordered ''" s 32] by blast
next
  assume h: "desc_of de = Inr desc \<and>
    item (unicode_split (unicode_lower desc)) 0 = Inr (ascii_decode ''ordered'') \<and>
    filter_des des = Inr good_des"
  then have "\<not> spec_entry_kept de"
    using ordered_not_kept[of "unicode_split (unicode_lower desc)"]
    by (simp add: spec_entry_kept_def)
  with h show "de \<notin> set good_des"
    using filter_des_loop_subset[of des "[]" good_des de] by (auto simp: filter_des_def)
qed

theorem ordered_with_space_never_matches_witness:
  "desc_of \<lparr>description = ascii_decode ''ORDERED that the motion is denied'',
            recap_documents = []\<rparr> =
     Inr (ascii_decode ''ORDERED that the motion is denied'') \<and>
   item (unicode_split (unicode_lower (ascii_decode ''ORDERED that the motion is denied''))) 0 =
     Inr (ascii_decode ''ordered'') \<and>
   filter_des
     [\<lparr>description = ascii_decode ''ORDERED that the motion is denied'', recap_documents = []\<rparr>,
      \<lparr>description = ascii_decode ''Order on motion'', recap_documents = []\<rparr>] =
     Inr [\<lparr>description = ascii_decode ''Order on motion'', recap_documents = []\<rparr>] \<and>
   \<lparr>description = ascii_decode ''ORDERED that the motion is denied'', recap_documents = []\<rparr> \<notin>
     set [\<lparr>description = ascii_decode ''Order on motion'', recap_documents = []\<rparr>] \<and>
   ascii_decode ''ordered '' \<notin>
     set (unicode_split (ascii_decode ''ordered that the motion is denied''))"
  (is "?a \<and> ?b \<and> ?c \<and> ?d \<and> ?e")
proof -
  have a: ?a by code_simp
  have b: ?b by code_simp
  have c: ?c by code_simp
  from ordered_with_space_never_matches[of "ascii_decode ''ordered that the motion is denied''"
      "\<lparr>description = ascii_decode ''ORDERED that the motion is denied'', recap_documents = []\<rparr>"
      "ascii_decode ''ORDERED that the motion is denied''"
      "[\<lparr>description = ascii_decode ''ORDERED that the motion is denied'', recap_documents = []\<rparr>,
        \<lparr>description = ascii_decode ''Order on motion'', recap_documents = []\<rparr>]"
      "[\<lparr>description = ascii_decode ''Order on motion'', recap_documents = []\<rparr>]"] a b c
  have "?d \<and> ?e" by blast
  with a b c show ?thesis by blast
qed

subsection \<open>One entry, or several\<close>

text \<open>
  C9. With exactly one entry, the choice of entries in \<^verbatim>\<open>download_documents\<close> is that
  entry, whatever its description and documents, and nothing is logged; \<^verbatim>\<open>filter_des\<close>
  decides only when there are several entries.
\<close>

theorem one_entry_is_kept_unclassified:
  "(length des = 1 \<longrightarrow> download_documents_good_des i des st = (Inr (Some des), st)) \<and>
   (1 < length des \<longrightarrow>
      download_documents_good_des i des st =
        (bind_exn (filter_des des) (\<lambda>good_des. Inr (Some good_des)), st))"
proof (intro conjI impI)
  assume "length des = 1"
  then obtain de where "des = [de]" by (cases des) auto
  then show "download_documents_good_des i des st = (Inr (Some des), st)"
    by (simp add: download_documents_good_des_def item_def bind_exn_def)
next
  assume "1 < length des"
  then show "download_documents_good_des i des st =
        (bind_exn (filter_des des) (\<lambda>good_des. Inr (Some good_des)), st)"
    by (auto simp: download_documents_good_des_def)
qed

theorem one_entry_is_kept_unclassified_witness:
  "length [\<lparr>description = [], recap_documents = []\<rparr>] = 1 \<and>
   download_documents_good_des 7 [\<lparr>description = [], recap_documents = []\<rparr>]
     \<lparr>log = [], queries = []\<rparr> =
     (Inr (Some [\<lparr>description = [], recap_documents = []\<rparr>]), \<lparr>log = [], queries = []\<rparr>) \<and>
   filter_des [\<lparr>description = [], recap_documents = []\<rparr>] = Inl DoesNotExist \<and>
   1 < length [\<lparr>description = ascii_decode ''Letter from counsel'', recap_documents = []\<rparr>,
               \<lparr>description = ascii_decode ''Opinion and order'', recap_documents = []\<rparr>] \<and>
   download_documents_good_des 7
     [\<lparr>description = ascii_decode ''Letter from counsel'', recap_documents = []\<rparr>,
      \<lparr>description = ascii_decode ''Opinion and order'', recap_documents = []\<rparr>]
     \<lparr>log = [], queries = []\<rparr> =
     (Inr (Some [\<lparr>description = ascii_decode ''Opinion and order'', recap_documents = []\<rparr>]),
      \<lparr>log = [], queries = []\<rparr>)"
  (is "?a \<and> ?b \<and> ?c \<and> ?d \<and> ?e")
proof -
  have a: ?a by simp
  have d: ?d by simp
  have c: ?c by code_simp
  have f: "filter_des
      [\<lparr>description = ascii_decode ''Letter from counsel'', recap_documents = []\<rparr>,
       \<lparr>description = ascii_decode ''Opinion and order'', recap_documents = []\<rparr>] =
      Inr [\<lparr>description = ascii_decode ''Opinion and order'', recap_documents = []\<rparr>]"
    by code_simp
  from one_entry_is_kept_unclassified[of "[\<lparr>description = [], recap_documents = []\<rparr>]" 7
      "\<lparr>log = [], queries = []\<rparr>"] a
  have b: ?b by blast
  from one_entry_is_kept_unclassified[of
      "[\<lparr>description = ascii_decode ''Letter from counsel'', recap_documents = []\<rparr>,
        \<lparr>description = ascii_decode ''Opinion and order'', recap_documents = []\<rparr>]" 7
      "\<lparr>log = [], queries = []\<rparr>"] d f
  have e: ?e by (simp add: bind_exn_def)
  from a b c d e show ?thesis by blast
qed

subsection \<open>An entry without a text\<close>

text \<open>
  C8. The claim is that nothing raises to the caller and that an entry with an empty
  description and no primary document, or several, is skipped with a logged reason. Here
  \<^verbatim>\<open>filter_des\<close> is evaluated on two entries, the first with an empty description and no
  primary document, then with two: DoesNotExist and MultipleObjectsReturned leave
  \<^verbatim>\<open>filter_des\<close> and the choice of entries, the second entry is never looked at and
  nothing is logged.
\<close>

theorem filter_des_raises_without_one_primary_document:
  "filter_des
     [\<lparr>description = [], recap_documents = []\<rparr>,
      \<lparr>description = ascii_decode ''Order granting motion to dismiss'', recap_documents = []\<rparr>] =
     Inl DoesNotExist \<and>
   filter_des
     [\<lparr>description = [], recap_documents =
        [\<lparr>document_type = PACER_DOCUMENT, rd_description = ascii_decode ''Order'',
          pacer_doc_id = ''01''\<rparr>,
         \<lparr>document_type = PACER_DOCUMENT, rd_description = ascii_decode ''Order'',
          pacer_doc_id = ''02''\<rparr>]\<rparr>,
      \<lparr>description = ascii_decode ''Order granting motion to dismiss'', recap_documents = []\<rparr>] =
     Inl MultipleObjectsReturned \<and>
   download_documents_good_des 7
     [\<lparr>description = [], recap_documents = []\<rparr>,
      \<lparr>description = ascii_decode ''Order granting motion to dismiss'', recap_documents = []\<rparr>]
     \<lparr>log = [], queries = []\<rparr> =
     (Inl DoesNotExist, \<lparr>log = [], queries = []\<rparr>)"
  by (intro conjI; code_simp)

section \<open>Properties of \<^verbatim>\<open>lookup_row\<close> and \<^verbatim>\<open>make_party_q\<close>\<close>

subsection \<open>The loop over the stages\<close>

lemma lookup_row_parsed:
  assumes "unpack_pair (str_split_1 '' v. '' (str_lower (Case_Name row))) = Inr (p, d)"
    and "strptime (Date row) = Inr opinion_date"
    and "minus_timedelta opinion_date (365 * 5) = Inr earliest"
  shows "lookup_row tbl table row st =
    broaden (orig_query table (AO_ID row) opinion_date earliest) (filter_tuples tbl p d) st"
  using assms by (simp add: lookup_row_def)

lemma broadened_Cons:
  "broadened pre (logger WARNING (Unable_to_find_result a k) (send (Count a k) st)) =
   broadened ((a, k) # pre) st"
  by (simp add: broadened_def logger_def send_def)

lemma broaden_empty_stages:
  "\<forall>(a, k) \<in> set pre. qs_filter a k pool = [] \<Longrightarrow>
   broaden pool (pre @ rest) st = broaden pool rest (broadened pre st)"
proof (induction pre arbitrary: st)
  case Nil
  show ?case by (simp add: broadened_def)
next
  case (Cons s pre)
  obtain a k where s: "s = (a, k)" by (cases s)
  from Cons.prems s have e: "qs_filter a k pool = []" by simp
  from Cons.prems have rest: "\<forall>(a, k) \<in> set pre. qs_filter a k pool = []" by simp
  show ?case
    using Cons.IH[OF rest] by (simp add: s e Let_def broadened_Cons)
qed

lemma broaden_too_many:
  "5 \<le> length (qs_filter a k pool) \<Longrightarrow>
   broaden pool ((a, k) # post) st =
     (Inr None, logger WARNING (Got_too_many_results a k) (send (Count a k) st))"
  by (auto simp: Let_def)

lemma broaden_decisive:
  assumes "results = qs_filter a k pool" and "results \<noteq> []" and "length results < 5"
  shows "fst (broaden pool ((a, k) # post) st) = Inr (Some (results ! 0))"
    and "queries (snd (broaden pool ((a, k) # post) st)) = queries st @ [Count a k, First a k]"
    and "log (snd (broaden pool ((a, k) # post) st)) =
      log st @ [(INFO, if length results = 1 then Got_one_result a k
                       else Got_results (length results))]"
proof -
  from assms have n: "0 < length (qs_filter a k pool)" "length (qs_filter a k pool) < 5"
    by simp_all
  then have c: "length (qs_filter a k pool) = 1 \<or> 1 < length (qs_filter a k pool)"
    by arith
  show "fst (broaden pool ((a, k) # post) st) = Inr (Some (results ! 0))"
    using n c assms(1) by (auto simp: Let_def item_def)
  show "queries (snd (broaden pool ((a, k) # post) st)) = queries st @ [Count a k, First a k]"
    using n c by (auto simp: Let_def item_def send_def logger_def)
  show "log (snd (broaden pool ((a, k) # post) st)) =
      log st @ [(INFO, if length results = 1 then Got_one_result a k
                       else Got_results (length results))]"
    using n c assms(1) by (auto simp: Let_def item_def send_def logger_def)
qed

subsection \<open>The pool and its order\<close>

lemma orig_query_sorted: "sorted (map (\<lambda>r. - date_filed r) (orig_query table ao od e))"
  by (simp add: orig_query_def)

lemma qs_filter_sorted:
  "sorted (map f pool) \<Longrightarrow> sorted (map f (qs_filter a k pool))"
  by (simp add: qs_filter_def sorted_filter)

lemma sorted_first_least:
  "sorted (map f xs) \<Longrightarrow> r \<in> set xs \<Longrightarrow> f (xs ! 0) \<le> f r"
  by (cases xs) auto

lemma set_orig_query:
  "set (orig_query table ao od e) =
   {r \<in> set table. dataset_source r = CV_2017 \<and> jurisdiction (district r) \<noteq> FEDERAL_BANKRUPTCY \<and>
      fjc_court_id (district r) = ao \<and> e \<le> date_filed r \<and> date_filed r \<le> od}"
  by (auto simp: orig_query_def)

subsection \<open>What a \<^verbatim>\<open>Q\<close> object of \<^verbatim>\<open>make_party_q\<close> matches\<close>

lemma q_or_leaf: "a \<noteq> Q_empty \<Longrightarrow> q_or a (Q_leaf f l v) = Q_or a (Q_leaf f l v)"
  by (cases a) simp_all

lemma foldl_q_or:
  "a \<noteq> Q_empty \<Longrightarrow>
   foldl (\<lambda>q abbrev. q_or q (Q_leaf f icontains abbrev)) a expansions \<noteq> Q_empty \<and>
   q_matches (foldl (\<lambda>q abbrev. q_or q (Q_leaf f icontains abbrev)) a expansions) r =
     (q_matches a r \<or> list_ex (\<lambda>t. lookup_matches icontains (field_value f r) t) expansions)"
  by (induction expansions arbitrary: a) (auto simp: q_or_leaf)

lemma word_q_matches: "q_matches (word_q tbl f w) r = spec_token_predicate tbl f r w"
  using foldl_q_or[of "Q_leaf f icontains w" f _ r]
  by (auto simp: word_q_def spec_token_predicate_def split: option.splits)

lemma q_and_matches: "q_matches (q_and a b) r = (q_matches a r \<and> q_matches b r)"
  by (induction a b rule: q_and.induct) auto

lemma foldl_q_and:
  "q_matches (foldl (\<lambda>new_q word. q_and new_q (g word)) acc ws) r =
   (q_matches acc r \<and> list_all (\<lambda>w. q_matches (g w) r) ws)"
  by (induction ws arbitrary: acc) (auto simp: q_and_matches)

lemma make_party_q_matches:
  "q_matches (make_party_q tbl party f sl) r =
   list_all (spec_token_predicate tbl f r) (apply_slice sl (str_split party))"
  by (simp add: make_party_q_def foldl_q_and word_q_matches)

subsection \<open>Reaching a stage\<close>

text \<open>
  A row whose case name splits and whose date parses reaches a stage of \<^verbatim>\<open>filter_tuples\<close>
  exactly when every earlier stage counted no result.
\<close>

lemma lookup_row_reaches_stage:
  assumes "unpack_pair (str_split_1 '' v. '' (str_lower (Case_Name row))) = Inr (p, d)"
    and "strptime (Date row) = Inr opinion_date"
    and "minus_timedelta opinion_date (365 * 5) = Inr earliest"
    and "pool = orig_query table (AO_ID row) opinion_date earliest"
    and "filter_tuples tbl p d = pre @ (args, kwargs) # post"
    and "\<forall>(a, k) \<in> set pre. length (qs_filter a k pool) = 0"
  shows "lookup_row tbl table row st = broaden pool ((args, kwargs) # post) (broadened pre st)"
proof -
  from assms(6) have "\<forall>(a, k) \<in> set pre. qs_filter a k pool = []" by auto
  then have "broaden pool (pre @ (args, kwargs) # post) st =
      broaden pool ((args, kwargs) # post) (broadened pre st)"
    by (rule broaden_empty_stages)
  with lookup_row_parsed[OF assms(1-3), of tbl table st] assms(4,5) show ?thesis by simp
qed

text \<open>
  C3. When a stage is evaluated (every stage before it counted no result) and counts five
  results or more, \<^verbatim>\<open>lookup_row\<close> returns \<open>None\<close> at once: the only queries sent are the
  counts of the earlier stages and of this one, none for a later stage, and the last line
  logged is the warning of too many results.
\<close>

theorem lookup_row_too_many_results:
  assumes "unpack_pair (str_split_1 '' v. '' (str_lower (Case_Name row))) = Inr (p, d)"
    and "strptime (Date row) = Inr opinion_date"
    and "minus_timedelta opinion_date (365 * 5) = Inr earliest"
    and "pool = orig_query table (AO_ID row) opinion_date earliest"
    and "filter_tuples tbl p d = pre @ (args, kwargs) # post"
    and "\<forall>(a, k) \<in> set pre. length (qs_filter a k pool) = 0"
    and "5 \<le> length (qs_filter args kwargs pool)"
  shows "fst (lookup_row tbl table row st) = Inr None \<and>
    queries (snd (lookup_row tbl table row st)) =
      queries st @ map (\<lambda>(a, k). Count a k) (pre @ [(args, kwargs)]) \<and>
    log (snd (lookup_row tbl table row st)) =
      log st @ map (\<lambda>(a, k). (WARNING, Unable_to_find_result a k)) pre @
        [(WARNING, Got_too_many_results args kwargs)]"
proof -
  have "lookup_row tbl table row st =
      (Inr None,
       logger WARNING (Got_too_many_results args kwargs)
         (send (Count args kwargs) (broadened pre st)))"
    unfolding lookup_row_reaches_stage[OF assms(1-6)] by (rule broaden_too_many[OF assms(7)])
  then show ?thesis by (simp add: broadened_def logger_def send_def)
qed

theorem lookup_row_too_many_results_witness:
  "unpack_pair (str_split_1 '' v. '' (str_lower ''Smith v. Jones'')) = Inr (''smith'', ''jones'') \<and>
   strptime ''06/01/2015'' = Inr 735750 \<and>
   length (qs_filter [] [(plaintiff_field, iexact, ''smith''), (defendant_field, iexact, ''jones'')]
     (orig_query
       (map (\<lambda>n. \<lparr>pk = n, dataset_source = CV_2017,
           district = \<lparr>fjc_court_id = ''3'', jurisdiction = FEDERAL_DISTRICT\<rparr>,
           date_filed = 735000 + int n, plaintiff = ''SMITH JOHN'', defendant = ''JONES INC'',
           docket_number = ''1400123''\<rparr>) [1, 2, 3, 4, 5]) ''3'' 735750 733925)) = 0 \<and>
   length (qs_filter []
     [(plaintiff_field, istartswith, ''smith''), (defendant_field, istartswith, ''jones'')]
     (orig_query
       (map (\<lambda>n. \<lparr>pk = n, dataset_source = CV_2017,
           district = \<lparr>fjc_court_id = ''3'', jurisdiction = FEDERAL_DISTRICT\<rparr>,
           date_filed = 735000 + int n, plaintiff = ''SMITH JOHN'', defendant = ''JONES INC'',
           docket_number = ''1400123''\<rparr>) [1, 2, 3, 4, 5]) ''3'' 735750 733925)) = 5 \<and>
   lookup_row []
     (map (\<lambda>n. \<lparr>pk = n, dataset_source = CV_2017,
         district = \<lparr>fjc_court_id = ''3'', jurisdiction = FEDERAL_DISTRICT\<rparr>,
         date_filed = 735000 + int n, plaintiff = ''SMITH JOHN'', defendant = ''JONES INC'',
         docket_number = ''1400123''\<rparr>) [1, 2, 3, 4, 5])
     \<lparr>Case_Name = ''Smith v. Jones'', Date = ''06/01/2015'', AO_ID = ''3''\<rparr>
     \<lparr>log = [], queries = []\<rparr> =
   (Inr None,
    \<lparr>log =
       [(WARNING, Unable_to_find_result []
           [(plaintiff_field, iexact, ''smith''), (defendant_field, iexact, ''jones'')]),
        (WARNING, Got_too_many_results []
           [(plaintiff_field, istartswith, ''smith''), (defendant_field, istartswith, ''jones'')])],
     queries =
       [Count [] [(plaintiff_field, iexact, ''smith''), (defendant_field, iexact, ''jones'')],
        Count [] [(plaintiff_field, istartswith, ''smith''),
                  (defendant_field, istartswith, ''jones'')]]\<rparr>)"
  (is "?split \<and> ?date \<and> length (qs_filter ?a1 ?k1 (orig_query ?table ?ao ?od ?e)) = 0 \<and>
       length (qs_filter ?a2 ?k2 ?pool) = 5 \<and> lookup_row ?tbl ?table ?row ?st = ?res")
proof -
  have h1: "unpack_pair (str_split_1 '' v. '' (str_lower (Case_Name ?row))) = Inr (''smith'', ''jones'')"
    by code_simp
  have h2: "strptime (Date ?row) = Inr ?od" by code_simp
  have h3: "minus_timedelta ?od (365 * 5) = Inr ?e" by code_simp
  have h4: "?pool = orig_query ?table (AO_ID ?row) ?od ?e" by simp
  have h5: "filter_tuples ?tbl ''smith'' ''jones'' =
      [(?a1, ?k1)] @ (?a2, ?k2) # drop 2 (filter_tuples ?tbl ''smith'' ''jones'')"
    by code_simp
  have c1: "length (qs_filter ?a1 ?k1 ?pool) = 0" by code_simp
  have c2: "length (qs_filter ?a2 ?k2 ?pool) = 5" by code_simp
  from c1 have h6: "\<forall>(a, k) \<in> set [(?a1, ?k1)]. length (qs_filter a k ?pool) = 0" by simp
  from c2 have h7: "5 \<le> length (qs_filter ?a2 ?k2 ?pool)" by simp
  from lookup_row_too_many_results[OF h1 h2 h3 h4 h5 h6 h7, of ?st]
  have "lookup_row ?tbl ?table ?row ?st = ?res"
    by (cases "lookup_row ?tbl ?table ?row ?st") simp
  moreover have ?split by code_simp
  moreover have ?date by code_simp
  ultimately show ?thesis using c1 c2 by blast
qed


text \<open>
  C4. When a stage is evaluated and counts between one and four results, \<^verbatim>\<open>lookup_row\<close>
  returns the first of them in the order of the pool, which is descending by
  \<^verbatim>\<open>date_filed\<close>: no result of the stage was filed later. With one result, that result is
  the one returned.
\<close>

theorem lookup_row_returns_most_recent:
  assumes "unpack_pair (str_split_1 '' v. '' (str_lower (Case_Name row))) = Inr (p, d)"
    and "strptime (Date row) = Inr opinion_date"
    and "minus_timedelta opinion_date (365 * 5) = Inr earliest"
    and "pool = orig_query table (AO_ID row) opinion_date earliest"
    and "filter_tuples tbl p d = pre @ (args, kwargs) # post"
    and "\<forall>(a, k) \<in> set pre. length (qs_filter a k pool) = 0"
    and "results = qs_filter args kwargs pool"
    and "0 < length results"
    and "length results < 5"
  shows "fst (lookup_row tbl table row st) = Inr (Some (results ! 0)) \<and>
    (\<forall>r \<in> set results. date_filed r \<le> date_filed (results ! 0)) \<and>
    sorted_wrt (\<lambda>a b. date_filed b \<le> date_filed a) results \<and>
    (length results = 1 \<longrightarrow> results = [results ! 0]) \<and>
    queries (snd (lookup_row tbl table row st)) =
      queries st @ map (\<lambda>(a, k). Count a k) pre @ [Count args kwargs, First args kwargs]"
proof -
  from assms(8) have ne: "results \<noteq> []" by auto
  have reach: "lookup_row tbl table row st =
      broaden pool ((args, kwargs) # post) (broadened pre st)"
    by (rule lookup_row_reaches_stage[OF assms(1-6)])
  have first: "fst (lookup_row tbl table row st) = Inr (Some (results ! 0))"
    unfolding reach by (rule broaden_decisive(1)[OF assms(7) ne assms(9)])
  have sent: "queries (snd (lookup_row tbl table row st)) =
      queries st @ map (\<lambda>(a, k). Count a k) pre @ [Count args kwargs, First args kwargs]"
    unfolding reach broaden_decisive(2)[OF assms(7) ne assms(9)]
    by (simp add: broadened_def)
  have srt: "sorted (map (\<lambda>r. - date_filed r) results)"
    unfolding assms(7) assms(4) by (rule qs_filter_sorted[OF orig_query_sorted])
  have recent: "\<forall>r \<in> set results. date_filed r \<le> date_filed (results ! 0)"
    using sorted_first_least[OF srt] by fastforce
  have single: "length results = 1 \<longrightarrow> results = [results ! 0]"
    by (cases results) auto
  from srt have desc: "sorted_wrt (\<lambda>a b. date_filed b \<le> date_filed a) results"
    by (simp add: sorted_map)
  from first recent desc single sent show ?thesis by blast
qed

theorem lookup_row_returns_most_recent_witness:
  "qs_filter []
     [(plaintiff_field, iexact, ''smith, john''), (defendant_field, iexact, ''doe corp.'')]
     (orig_query
        [\<lparr>pk = 1, dataset_source = CV_2017,
          district = \<lparr>fjc_court_id = ''3'', jurisdiction = FEDERAL_DISTRICT\<rparr>,
          date_filed = ymd2ord 2012 1 5, plaintiff = ''SMITH, JOHN'', defendant = ''DOE CORP.'',
          docket_number = ''1200017''\<rparr>,
         \<lparr>pk = 2, dataset_source = CV_2017,
          district = \<lparr>fjc_court_id = ''3'', jurisdiction = FEDERAL_DISTRICT\<rparr>,
          date_filed = ymd2ord 2014 7 20, plaintiff = ''SMITH, JOHN'', defendant = ''DOE CORP.'',
          docket_number = ''1400981''\<rparr>,
         \<lparr>pk = 3, dataset_source = CV_2017,
          district = \<lparr>fjc_court_id = ''3'', jurisdiction = FEDERAL_DISTRICT\<rparr>,
          date_filed = ymd2ord 2013 3 3, plaintiff = ''SMITH, JOHN'', defendant = ''DOE CORP.'',
          docket_number = ''1300245''\<rparr>]
        ''3'' 735750 733925) =
     [\<lparr>pk = 2, dataset_source = CV_2017,
       district = \<lparr>fjc_court_id = ''3'', jurisdiction = FEDERAL_DISTRICT\<rparr>,
       date_filed = 735434, plaintiff = ''SMITH, JOHN'', defendant = ''DOE CORP.'',
       docket_number = ''1400981''\<rparr>,
      \<lparr>pk = 3, dataset_source = CV_2017,
       district = \<lparr>fjc_court_id = ''3'', jurisdiction = FEDERAL_DISTRICT\<rparr>,
       date_filed = 734930, plaintiff = ''SMITH, JOHN'', defendant = ''DOE CORP.'',
       docket_number = ''1300245''\<rparr>,
      \<lparr>pk = 1, dataset_source = CV_2017,
       district = \<lparr>fjc_court_id = ''3'', jurisdiction = FEDERAL_DISTRICT\<rparr>,
       date_filed = 734507, plaintiff = ''SMITH, JOHN'', defendant = ''DOE CORP.'',
       docket_number = ''1200017''\<rparr>] \<and>
   fst (lookup_row []
     [\<lparr>pk = 1, dataset_source = CV_2017,
       district = \<lparr>fjc_court_id = ''3'', jurisdiction = FEDERAL_DISTRICT\<rparr>,
       date_filed = ymd2ord 2012 1 5, plaintiff = ''SMITH, JOHN'', defendant = ''DOE CORP.'',
       docket_number = ''1200017''\<rparr>,
      \<lparr>pk = 2, dataset_source = CV_2017,
       district = \<lparr>fjc_court_id = ''3'', jurisdiction = FEDERAL_DISTRICT\<rparr>,
       date_filed = ymd2ord 2014 7 20, plaintiff = ''SMITH, JOHN'', defendant = ''DOE CORP.'',
       docket_number = ''1400981''\<rparr>,
      \<lparr>pk = 3, dataset_source = CV_2017,
       district = \<lparr>fjc_court_id = ''3'', jurisdiction = FEDERAL_DISTRICT\<rparr>,
       date_filed = ymd2ord 2013 3 3, plaintiff = ''SMITH, JOHN'', defendant = ''DOE CORP.'',
       docket_number = ''1300245''\<rparr>]
     \<lparr>Case_Name = ''Smith, John v. Doe Corp.'', Date = ''06/01/2015'', AO_ID = ''3''\<rparr>
     \<lparr>log = [], queries = []\<rparr>) =
   Inr (Some
     \<lparr>pk = 2, dataset_source = CV_2017,
      district = \<lparr>fjc_court_id = ''3'', jurisdiction = FEDERAL_DISTRICT\<rparr>,
      date_filed = 735434, plaintiff = ''SMITH, JOHN'', defendant = ''DOE CORP.'',
      docket_number = ''1400981''\<rparr>)"
  (is "qs_filter ?a ?k (orig_query ?table ?ao ?od ?e) = ?results \<and>
       fst (lookup_row ?tbl ?table ?row ?st) = Inr (Some ?r)")
proof -
  have h1: "unpack_pair (str_split_1 '' v. '' (str_lower (Case_Name ?row))) =
      Inr (''smith, john'', ''doe corp.'')"
    by code_simp
  have h2: "strptime (Date ?row) = Inr ?od" by code_simp
  have h3: "minus_timedelta ?od (365 * 5) = Inr ?e" by code_simp
  have h4: "orig_query ?table ?ao ?od ?e = orig_query ?table (AO_ID ?row) ?od ?e" by simp
  have h5: "filter_tuples ?tbl ''smith, john'' ''doe corp.'' =
      [] @ (?a, ?k) # drop 1 (filter_tuples ?tbl ''smith, john'' ''doe corp.'')"
    by code_simp
  have h6: "\<forall>(a, k) \<in> set []. length (qs_filter a k (orig_query ?table ?ao ?od ?e)) = 0"
    by simp
  have h7: "?results = qs_filter ?a ?k (orig_query ?table ?ao ?od ?e)" by code_simp
  have h8: "0 < length ?results" by simp
  have h9: "length ?results < 5" by simp
  from lookup_row_returns_most_recent[OF h1 h2 h3 h4 h5 h6 h7 h8 h9, of ?st]
  have "fst (lookup_row ?tbl ?table ?row ?st) = Inr (Some (?results ! 0))" by blast
  then have "fst (lookup_row ?tbl ?table ?row ?st) = Inr (Some ?r)" by simp
  with h7 show ?thesis by simp
qed


subsection \<open>The candidate pool\<close>

lemma orig_query_descending:
  "sorted_wrt (\<lambda>a b. date_filed b \<le> date_filed a) (orig_query table ao od e)"
  using orig_query_sorted[of table ao od e] by (simp add: sorted_map)

text \<open>
  C7, as amended. The pool that every stage filters holds exactly the rows of the table
  that are civil (\<^verbatim>\<open>CV_2017\<close>), not of a bankruptcy court, of the court of the row, and
  filed between the opinion date less 1825 days (\<open>365 * 5\<close>) and the opinion date, both
  included; it is ordered by \<^verbatim>\<open>date_filed\<close>, descending.
\<close>

theorem lookup_row_candidate_pool:
  assumes "unpack_pair (str_split_1 '' v. '' (str_lower (Case_Name row))) = Inr (p, d)"
    and "strptime (Date row) = Inr opinion_date"
    and "365 * 5 < opinion_date"
    and "pool = orig_query table (AO_ID row) opinion_date (opinion_date - 365 * 5)"
  shows "lookup_row tbl table row st = broaden pool (filter_tuples tbl p d) st \<and>
    set pool =
      {r \<in> set table. dataset_source r = CV_2017 \<and>
         jurisdiction (district r) \<noteq> FEDERAL_BANKRUPTCY \<and>
         fjc_court_id (district r) = AO_ID row \<and>
         opinion_date - 365 * 5 \<le> date_filed r \<and> date_filed r \<le> opinion_date} \<and>
    sorted_wrt (\<lambda>a b. date_filed b \<le> date_filed a) pool"
proof -
  from assms(3) have "minus_timedelta opinion_date (365 * 5) = Inr (opinion_date - 365 * 5)"
    by (simp add: minus_timedelta_def)
  from lookup_row_parsed[OF assms(1,2) this, of tbl table st] assms(4)
  have "lookup_row tbl table row st = broaden pool (filter_tuples tbl p d) st" by simp
  then show ?thesis
    unfolding assms(4) using set_orig_query orig_query_descending by blast
qed

theorem lookup_row_candidate_pool_witness:
  "lookup_row []
     [\<lparr>pk = 1, dataset_source = CV_2017,
       district = \<lparr>fjc_court_id = ''3'', jurisdiction = FEDERAL_DISTRICT\<rparr>,
       date_filed = ymd2ord 2010 6 2, plaintiff = ''SMITH'', defendant = ''JONES'',
       docket_number = ''1000001''\<rparr>,
      \<lparr>pk = 2, dataset_source = CV_2017,
       district = \<lparr>fjc_court_id = ''3'', jurisdiction = FEDERAL_BANKRUPTCY\<rparr>,
       date_filed = ymd2ord 2014 7 20, plaintiff = ''SMITH'', defendant = ''JONES'',
       docket_number = ''1400002''\<rparr>,
      \<lparr>pk = 3, dataset_source = OTHER_DATASET,
       district = \<lparr>fjc_court_id = ''3'', jurisdiction = FEDERAL_DISTRICT\<rparr>,
       date_filed = ymd2ord 2014 7 20, plaintiff = ''SMITH'', defendant = ''JONES'',
       docket_number = ''1400003''\<rparr>,
      \<lparr>pk = 4, dataset_source = CV_2017,
       district = \<lparr>fjc_court_id = ''4'', jurisdiction = FEDERAL_DISTRICT\<rparr>,
       date_filed = ymd2ord 2014 7 20, plaintiff = ''SMITH'', defendant = ''JONES'',
       docket_number = ''1400004''\<rparr>,
      \<lparr>pk = 5, dataset_source = CV_2017,
       district = \<lparr>fjc_court_id = ''3'', jurisdiction = FEDERAL_DISTRICT\<rparr>,
       date_filed = ymd2ord 2015 6 2, plaintiff = ''SMITH'', defendant = ''JONES'',
       docket_number = ''1500005''\<rparr>,
      \<lparr>pk = 6, dataset_source = CV_2017,
       district = \<lparr>fjc_court_id = ''3'', jurisdiction = FEDERAL_DISTRICT\<rparr>,
       date_filed = ymd2ord 2015 6 1, plaintiff = ''SMITH'', defendant = ''JONES'',
       docket_number = ''1500006''\<rparr>]
     \<lparr>Case_Name = ''Smith v. Jones'', Date = ''06/01/2015'', AO_ID = ''3''\<rparr>
     \<lparr>log = [], queries = []\<rparr> =
   broaden
     [\<lparr>pk = 6, dataset_source = CV_2017,
       district = \<lparr>fjc_court_id = ''3'', jurisdiction = FEDERAL_DISTRICT\<rparr>,
       date_filed = 735750, plaintiff = ''SMITH'', defendant = ''JONES'',
       docket_number = ''1500006''\<rparr>,
      \<lparr>pk = 1, dataset_source = CV_2017,
       district = \<lparr>fjc_court_id = ''3'', jurisdiction = FEDERAL_DISTRICT\<rparr>,
       date_filed = 733925, plaintiff = ''SMITH'', defendant = ''JONES'',
       docket_number = ''1000001''\<rparr>]
     (filter_tuples [] ''smith'' ''jones'') \<lparr>log = [], queries = []\<rparr>"
  (is "lookup_row ?tbl ?table ?row ?st = broaden ?pool ?stages ?st")
proof -
  have h1: "unpack_pair (str_split_1 '' v. '' (str_lower (Case_Name ?row))) =
      Inr (''smith'', ''jones'')"
    by code_simp
  have h2: "strptime (Date ?row) = Inr 735750" by code_simp
  have h3: "365 * 5 < (735750 :: int)" by simp
  have h4: "?pool = orig_query ?table (AO_ID ?row) 735750 (735750 - 365 * 5)" by code_simp
  from lookup_row_candidate_pool[OF h1 h2 h3 h4, of ?tbl ?st] show ?thesis by blast
qed

text \<open>
  The window is not five calendar years: a civil case of the court filed on 2010-06-01,
  five years to the day before the opinion of 2015-06-01, is 1826 days old. It is in the
  pool of the claim and not in the pool of \<^verbatim>\<open>lookup_row\<close>, which finds nothing.
\<close>

theorem lookup_row_candidate_pool_counterexample:
  "strptime ''06/01/2015'' = Inr (ymd2ord 2015 6 1) \<and>
   spec_candidate_pool
     [\<lparr>pk = 1, dataset_source = CV_2017,
       district = \<lparr>fjc_court_id = ''3'', jurisdiction = FEDERAL_DISTRICT\<rparr>,
       date_filed = ymd2ord 2010 6 1, plaintiff = ''SMITH'', defendant = ''JONES'',
       docket_number = ''1000001''\<rparr>] ''3'' 2015 6 1 =
     [\<lparr>pk = 1, dataset_source = CV_2017,
       district = \<lparr>fjc_court_id = ''3'', jurisdiction = FEDERAL_DISTRICT\<rparr>,
       date_filed = ymd2ord 2010 6 1, plaintiff = ''SMITH'', defendant = ''JONES'',
       docket_number = ''1000001''\<rparr>] \<and>
   orig_query
     [\<lparr>pk = 1, dataset_source = CV_2017,
       district = \<lparr>fjc_court_id = ''3'', jurisdiction = FEDERAL_DISTRICT\<rparr>,
       date_filed = ymd2ord 2010 6 1, plaintiff = ''SMITH'', defendant = ''JONES'',
       docket_number = ''1000001''\<rparr>] ''3'' (ymd2ord 2015 6 1) (ymd2ord 2015 6 1 - 365 * 5) = [] \<and>
   fst (lookup_row []
     [\<lparr>pk = 1, dataset_source = CV_2017,
       district = \<lparr>fjc_court_id = ''3'', jurisdiction = FEDERAL_DISTRICT\<rparr>,
       date_filed = ymd2ord 2010 6 1, plaintiff = ''SMITH'', defendant = ''JONES'',
       docket_number = ''1000001''\<rparr>]
     \<lparr>Case_Name = ''Smith v. Jones'', Date = ''06/01/2015'', AO_ID = ''3''\<rparr>
     \<lparr>log = [], queries = []\<rparr>) = Inr None"
  by (intro conjI; code_simp)

subsection \<open>Tokens and abbreviations\<close>

text \<open>
  C6. A record matches the \<^verbatim>\<open>Q\<close> object of \<^verbatim>\<open>make_party_q\<close> exactly when it satisfies
  the predicate of every token of the slice; the predicate of a token that ends with a
  period and is a key of the case-insensitive table is: the field contains the token or
  one of its expansions, and of any other token: the field contains the token.
\<close>

theorem make_party_q_or_of_expansions:
  "q_matches (make_party_q tbl party f term_slice) r =
   list_all (spec_token_predicate tbl f r) (apply_slice term_slice (str_split party))"
proof -
  have "q_matches (make_party_q tbl party f term_slice) r =
      list_all (\<lambda>word. q_matches (word_q tbl f word) r)
        (apply_slice term_slice (str_split party))"
    by (simp add: make_party_q_def foldl_q_and)
  also have "\<dots> =
      list_all (spec_token_predicate tbl f r) (apply_slice term_slice (str_split party))"
    by (simp add: word_q_matches)
  finally show ?thesis .
qed

theorem make_party_q_or_of_expansions_witness:
  "make_party_q [(''Assn.'', [''Association''])] ''american bar assn.'' defendant_field
     (slice None 3) =
     Q_and (Q_and (Q_leaf defendant_field icontains ''american'')
                  (Q_leaf defendant_field icontains ''bar''))
           (Q_or (Q_leaf defendant_field icontains ''assn.'')
                 (Q_leaf defendant_field icontains ''Association'')) \<and>
   q_matches
     (make_party_q [(''Assn.'', [''Association''])] ''american bar assn.'' defendant_field
        (slice None 3))
     \<lparr>pk = 1, dataset_source = CV_2017,
      district = \<lparr>fjc_court_id = ''3'', jurisdiction = FEDERAL_DISTRICT\<rparr>,
      date_filed = 735434, plaintiff = ''SMITH'', defendant = ''AMERICAN BAR ASSOCIATION'',
      docket_number = ''1400981''\<rparr> \<and>
   \<not> lookup_matches icontains ''AMERICAN BAR ASSOCIATION'' ''assn.''"
  (is "?tree \<and> q_matches (make_party_q ?tbl ?party ?f ?sl) ?r \<and> ?absent")
proof -
  have "list_all (spec_token_predicate ?tbl ?f ?r) (apply_slice ?sl (str_split ?party))"
    by code_simp
  then have m: "q_matches (make_party_q ?tbl ?party ?f ?sl) ?r"
    by (simp only: make_party_q_or_of_expansions)
  have t: ?tree by code_simp
  have a: ?absent by code_simp
  from t m a show ?thesis by blast
qed


subsection \<open>Party texts with few tokens\<close>

lemma qs_filter_two_q:
  "qs_filter [qa, qb] [] pool = filter (\<lambda>r. q_matches qa r \<and> q_matches qb r) pool"
  by (simp add: qs_filter_def)

lemma token_stage_results:
  assumes "i < 3" and "(ps, ds) = token_stage_slices ! i"
  shows "\<exists>args. filter_tuples tbl p d ! (2 + i) = (args, []) \<and>
    qs_filter args [] pool =
      filter (\<lambda>r. list_all (spec_token_predicate tbl plaintiff_field r)
                    (apply_slice ps (str_split p)) \<and>
                  list_all (spec_token_predicate tbl defendant_field r)
                    (apply_slice ds (str_split d))) pool"
proof -
  from assms(1) consider "i = 0" | "i = 1" | "i = 2" by arith
  then show ?thesis
  proof cases
    case 1
    with assms(2) have "ps = slice None 3" "ds = slice None 3"
      by (simp_all add: token_stage_slices_def)
    with 1 show ?thesis
      by (auto simp: filter_tuples_def qs_filter_two_q make_party_q_matches intro: filter_cong)
  next
    case 2
    with assms(2) have "ps = slice None 1" "ds = slice None 1"
      by (simp_all add: token_stage_slices_def)
    with 2 show ?thesis
      by (auto simp: filter_tuples_def qs_filter_two_q make_party_q_matches intro: filter_cong)
  next
    case 3
    with assms(2) have "ps = slice (Some 1) 2" "ds = slice None 1"
      by (simp_all add: token_stage_slices_def)
    with 3 show ?thesis
      by (auto simp: filter_tuples_def qs_filter_two_q make_party_q_matches intro: filter_cong)
  qed
qed

lemma length_filter_tuples: "length (filter_tuples tbl p d) = 5"
  by (simp add: filter_tuples_def)

text \<open>
  C2, as amended. A token stage is evaluated whatever the number of tokens of the party
  texts: its results are the rows of the pool that satisfy the predicate of every token
  its slices yield (the first three, the first, or the plaintiff's second and the
  defendant's first; fewer when the text is shorter, and a party whose slice is empty is
  not constrained). Reached with one to four results, the stage decides: \<^verbatim>\<open>lookup_row\<close>
  returns the first of them.
\<close>

theorem token_stage_with_short_text:
  assumes "unpack_pair (str_split_1 '' v. '' (str_lower (Case_Name row))) = Inr (p, d)"
    and "strptime (Date row) = Inr opinion_date"
    and "minus_timedelta opinion_date (365 * 5) = Inr earliest"
    and "pool = orig_query table (AO_ID row) opinion_date earliest"
    and "i < 3"
    and "(ps, ds) = token_stage_slices ! i"
    and "\<forall>(a, k) \<in> set (take (2 + i) (filter_tuples tbl p d)). length (qs_filter a k pool) = 0"
    and "results =
      filter (\<lambda>r. list_all (spec_token_predicate tbl plaintiff_field r)
                    (apply_slice ps (str_split p)) \<and>
                  list_all (spec_token_predicate tbl defendant_field r)
                    (apply_slice ds (str_split d))) pool"
    and "0 < length results"
    and "length results < 5"
  shows "fst (lookup_row tbl table row st) = Inr (Some (results ! 0))"
proof -
  from token_stage_results[OF assms(5,6), of tbl p d pool] assms(8)
  obtain args where stage: "filter_tuples tbl p d ! (2 + i) = (args, [])"
    and res: "results = qs_filter args [] pool"
    by auto
  from assms(5) have "2 + i < length (filter_tuples tbl p d)"
    by (simp add: length_filter_tuples)
  from id_take_nth_drop[OF this] stage
  have cut: "filter_tuples tbl p d =
      take (2 + i) (filter_tuples tbl p d) @ (args, []) # drop (Suc (2 + i)) (filter_tuples tbl p d)"
    by simp
  from assms(9) have ne: "results \<noteq> []" by auto
  show ?thesis
    unfolding lookup_row_reaches_stage[OF assms(1-4) cut assms(7)]
    by (rule broaden_decisive(1)[OF res ne assms(10)])
qed

theorem token_stage_with_short_text_witness:
  "length (str_split ''smith'') < 2 \<and>
   apply_slice (slice (Some 1) 2) (str_split ''smith'') = [] \<and>
   filter (\<lambda>r. list_all (spec_token_predicate [] plaintiff_field r)
                 (apply_slice (slice (Some 1) 2) (str_split ''smith'')) \<and>
               list_all (spec_token_predicate [] defendant_field r)
                 (apply_slice (slice None 1) (str_split ''doe'')))
     (orig_query
        [\<lparr>pk = 1, dataset_source = CV_2017,
          district = \<lparr>fjc_court_id = ''3'', jurisdiction = FEDERAL_DISTRICT\<rparr>,
          date_filed = 735434, plaintiff = ''JONES'', defendant = ''DOE INC'',
          docket_number = ''1400981''\<rparr>] ''3'' 735750 733925) =
     [\<lparr>pk = 1, dataset_source = CV_2017,
       district = \<lparr>fjc_court_id = ''3'', jurisdiction = FEDERAL_DISTRICT\<rparr>,
       date_filed = 735434, plaintiff = ''JONES'', defendant = ''DOE INC'',
       docket_number = ''1400981''\<rparr>] \<and>
   fst (lookup_row []
     [\<lparr>pk = 1, dataset_source = CV_2017,
       district = \<lparr>fjc_court_id = ''3'', jurisdiction = FEDERAL_DISTRICT\<rparr>,
       date_filed = 735434, plaintiff = ''JONES'', defendant = ''DOE INC'',
       docket_number = ''1400981''\<rparr>]
     \<lparr>Case_Name = ''Smith v. Doe'', Date = ''06/01/2015'', AO_ID = ''3''\<rparr>
     \<lparr>log = [], queries = []\<rparr>) =
   Inr (Some
     \<lparr>pk = 1, dataset_source = CV_2017,
      district = \<lparr>fjc_court_id = ''3'', jurisdiction = FEDERAL_DISTRICT\<rparr>,
      date_filed = 735434, plaintiff = ''JONES'', defendant = ''DOE INC'',
      docket_number = ''1400981''\<rparr>)"
  (is "?short \<and> ?none \<and> filter ?P (orig_query ?table ?ao ?od ?e) = [?r] \<and>
       fst (lookup_row ?tbl ?table ?row ?st) = Inr (Some ?r)")
proof -
  have h1: "unpack_pair (str_split_1 '' v. '' (str_lower (Case_Name ?row))) =
      Inr (''smith'', ''doe'')"
    by code_simp
  have h2: "strptime (Date ?row) = Inr ?od" by code_simp
  have h3: "minus_timedelta ?od (365 * 5) = Inr ?e" by code_simp
  have h4: "orig_query ?table ?ao ?od ?e = orig_query ?table (AO_ID ?row) ?od ?e" by simp
  have h5: "(2 :: nat) < 3" by simp
  have h6: "(slice (Some 1) 2, slice None 1) = token_stage_slices ! 2" by code_simp
  have h7: "\<forall>(a, k) \<in> set (take (2 + 2) (filter_tuples ?tbl ''smith'' ''doe'')).
      length (qs_filter a k (orig_query ?table ?ao ?od ?e)) = 0"
    by code_simp
  have h8: "[?r] = filter ?P (orig_query ?table ?ao ?od ?e)" by code_simp
  have h9: "0 < length [?r]" by simp
  have h10: "length [?r] < 5" by simp
  from token_stage_with_short_text[OF h1 h2 h3 h4 h5 h6 h7 h8 h9 h10, of ?st]
  have "fst (lookup_row ?tbl ?table ?row ?st) = Inr (Some ?r)" by simp
  moreover have ?short by code_simp
  moreover have ?none by code_simp
  ultimately show ?thesis using h8 by simp
qed

text \<open>
  A stage is not skipped for a short text: the plaintiff \<open>''smith''\<close> has one token, the
  plaintiff's \<^verbatim>\<open>Q\<close> object of the fifth stage is empty, and the fifth stage returns a case
  of the plaintiff JONES that matches the defendant's first token alone, after the count
  queries of all five stages and one fetch.
\<close>

theorem token_stage_with_short_text_counterexample:
  "length (str_split ''smith'') < 2 \<and>
   make_party_q [] ''smith'' plaintiff_field (slice (Some 1) 2) = Q_empty \<and>
   fst (lookup_row []
     [\<lparr>pk = 1, dataset_source = CV_2017,
       district = \<lparr>fjc_court_id = ''3'', jurisdiction = FEDERAL_DISTRICT\<rparr>,
       date_filed = 735434, plaintiff = ''JONES'', defendant = ''DOE INC'',
       docket_number = ''1400981''\<rparr>]
     \<lparr>Case_Name = ''Smith v. Doe'', Date = ''06/01/2015'', AO_ID = ''3''\<rparr>
     \<lparr>log = [], queries = []\<rparr>) =
   Inr (Some
     \<lparr>pk = 1, dataset_source = CV_2017,
      district = \<lparr>fjc_court_id = ''3'', jurisdiction = FEDERAL_DISTRICT\<rparr>,
      date_filed = 735434, plaintiff = ''JONES'', defendant = ''DOE INC'',
      docket_number = ''1400981''\<rparr>) \<and>
   last (log (snd (lookup_row []
     [\<lparr>pk = 1, dataset_source = CV_2017,
       district = \<lparr>fjc_court_id = ''3'', jurisdiction = FEDERAL_DISTRICT\<rparr>,
       date_filed = 735434, plaintiff = ''JONES'', defendant = ''DOE INC'',
       docket_number = ''1400981''\<rparr>]
     \<lparr>Case_Name = ''Smith v. Doe'', Date = ''06/01/2015'', AO_ID = ''3''\<rparr>
     \<lparr>log = [], queries = []\<rparr>))) =
   (INFO, Got_one_result [Q_empty, Q_leaf defendant_field icontains ''doe''] []) \<and>
   length (queries (snd (lookup_row []
     [\<lparr>pk = 1, dataset_source = CV_2017,
       district = \<lparr>fjc_court_id = ''3'', jurisdiction = FEDERAL_DISTRICT\<rparr>,
       date_filed = 735434, plaintiff = ''JONES'', defendant = ''DOE INC'',
       docket_number = ''1400981''\<rparr>]
     \<lparr>Case_Name = ''Smith v. Doe'', Date = ''06/01/2015'', AO_ID = ''3''\<rparr>
     \<lparr>log = [], queries = []\<rparr>))) = 6"
  by (intro conjI; code_simp)

subsection \<open>Case names without a separator, or with several\<close>

text \<open>
  The unpacking never raises IndexError, so the warning that the separator was not found
  is never logged; a case name without a separator logs the warning of several
  separators, and a case name with a separator is cut at the first one.
\<close>

lemma unpack_pair_not_IndexError: "unpack_pair xs \<noteq> Inl IndexError"
  by (simp add: unpack_pair_def split: list.splits)

lemma broaden_never_logs_not_found:
  "(lvl, Unable_to_find_v) \<in> set (log (snd (broaden pool stages st))) \<Longrightarrow>
   (lvl, Unable_to_find_v) \<in> set (log st)"
proof (induction stages arbitrary: st)
  case Nil
  then show ?case by simp
next
  case (Cons s stages)
  obtain a k where s: "s = (a, k)" by (cases s)
  show ?case
  proof (cases "qs_filter a k pool = []")
    case True
    with Cons.prems s
    have "(lvl, Unable_to_find_v) \<in> set (log (snd (broaden pool stages
        (logger WARNING (Unable_to_find_result a k) (send (Count a k) st)))))"
      by (simp add: Let_def)
    from Cons.IH[OF this] show ?thesis by (simp add: logger_def send_def)
  next
    case False
    with Cons.prems s show ?thesis
      by (auto simp: Let_def logger_def send_def split: if_splits sum.splits)
  qed
qed

lemma lookup_row_never_logs_not_found:
  "(lvl, Unable_to_find_v) \<in> set (log (snd (lookup_row tbl table row st))) \<Longrightarrow>
   (lvl, Unable_to_find_v) \<in> set (log st)"
  using unpack_pair_not_IndexError[of "str_split_1 '' v. '' (str_lower (Case_Name row))"]
  by (auto simp: lookup_row_def logger_def split: sum.splits if_splits
      dest: broaden_never_logs_not_found)

lemma lookup_row_without_separator:
  "find_sep '' v. '' [] (str_lower (Case_Name row)) = None \<Longrightarrow>
   lookup_row tbl table row st = (Inr None, logger WARNING Got_multiple_v st)"
  by (simp add: lookup_row_def str_split_1_def unpack_pair_def)

lemma lookup_row_with_separator:
  "find_sep '' v. '' [] (str_lower (Case_Name row)) = Some (p, d) \<Longrightarrow>
   unpack_pair (str_split_1 '' v. '' (str_lower (Case_Name row))) = Inr (p, d)"
  by (simp add: str_split_1_def unpack_pair_def)

text \<open>
  C1. The claim is that a case name with no separator, or with two or more, gives \<open>None\<close>
  without a query, with a warning that tells the two cases apart. Evaluated on
  \<open>''Smith v. Jones v. Doe''\<close>, \<^verbatim>\<open>lookup_row\<close> takes \<open>''jones v. doe''\<close> for the defendant,
  sends two queries and returns a match, with no warning; evaluated on
  \<open>''Smith and Jones''\<close>, it returns \<open>None\<close> without a query and logs the warning of
  several separators.
\<close>

theorem lookup_row_second_separator_goes_unnoticed:
  "lookup_row []
     [\<lparr>pk = 1, dataset_source = CV_2017,
       district = \<lparr>fjc_court_id = ''3'', jurisdiction = FEDERAL_DISTRICT\<rparr>,
       date_filed = 735434, plaintiff = ''SMITH'', defendant = ''JONES V. DOE'',
       docket_number = ''1400981''\<rparr>]
     \<lparr>Case_Name = ''Smith v. Jones v. Doe'', Date = ''06/01/2015'', AO_ID = ''3''\<rparr>
     \<lparr>log = [], queries = []\<rparr> =
   (Inr (Some
      \<lparr>pk = 1, dataset_source = CV_2017,
       district = \<lparr>fjc_court_id = ''3'', jurisdiction = FEDERAL_DISTRICT\<rparr>,
       date_filed = 735434, plaintiff = ''SMITH'', defendant = ''JONES V. DOE'',
       docket_number = ''1400981''\<rparr>),
    \<lparr>log =
       [(INFO, Got_one_result []
           [(plaintiff_field, iexact, ''smith''), (defendant_field, iexact, ''jones v. doe'')])],
     queries =
       [Count [] [(plaintiff_field, iexact, ''smith''), (defendant_field, iexact, ''jones v. doe'')],
        First [] [(plaintiff_field, iexact, ''smith''),
                  (defendant_field, iexact, ''jones v. doe'')]]\<rparr>) \<and>
   lookup_row []
     [\<lparr>pk = 1, dataset_source = CV_2017,
       district = \<lparr>fjc_court_id = ''3'', jurisdiction = FEDERAL_DISTRICT\<rparr>,
       date_filed = 735434, plaintiff = ''SMITH'', defendant = ''JONES V. DOE'',
       docket_number = ''1400981''\<rparr>]
     \<lparr>Case_Name = ''Smith and Jones'', Date = ''06/01/2015'', AO_ID = ''3''\<rparr>
     \<lparr>log = [], queries = []\<rparr> =
   (Inr None, \<lparr>log = [(WARNING, Got_multiple_v)], queries = []\<rparr>)"
  by (intro conjI; code_simp)

end
